theory Spec2Isabelle
  imports Main "HOL-Library.Word"
begin

unbundle bit_operations_syntax

section \<open>Bytes, C strings and faults\<close>

text \<open>
  The server is written in C.  A \<^verbatim>\<open>char\<close> or \<^verbatim>\<open>unsigned char\<close> is an 8-bit word, a buffer is
  a list of bytes, and a C string is the list of the bytes before its terminating NUL.
  A pointer into a string is the suffix of the string that starts there.  Where the C
  code has undefined behaviour or aborts, the model returns a \<open>fault\<close>.
\<close>

type_synonym byte = "8 word"
type_synonym bytes = "byte list"

datatype fault =
    NullDeref            \<comment> \<open>a NULL pointer is dereferenced\<close>
  | ReadPastEnd          \<comment> \<open>a string is read beyond its terminating NUL\<close>
  | BufferOverflow nat   \<comment> \<open>a fixed-size buffer receives that many bytes, more than it holds\<close>
  | AssertFail           \<comment> \<open>an \<^verbatim>\<open>assert\<close> fails\<close>

text \<open>A string literal as bytes (used for concrete inputs only).\<close>

definition str :: "string \<Rightarrow> bytes" where
  "str cs = map (\<lambda>c. of_nat (of_char c)) cs"

text \<open>The C string stored at the start of a buffer: everything before the first NUL.\<close>

definition cstr :: "bytes \<Rightarrow> bytes" where
  "cstr b = takeWhile (\<lambda>c. c \<noteq> 0) b"

text \<open>Little-endian integers at a byte offset (\<^verbatim>\<open>le16toh\<close>, \<^verbatim>\<open>le32toh\<close>, \<^verbatim>\<open>htole16\<close>,
  \<^verbatim>\<open>htole32\<close>; unaligned word accesses through casted pointers).\<close>

definition le16 :: "bytes \<Rightarrow> nat \<Rightarrow> 16 word" where
  "le16 b k = ucast (b ! k) OR push_bit 8 (ucast (b ! (k + 1)))"

definition le32 :: "bytes \<Rightarrow> nat \<Rightarrow> 32 word" where
  "le32 b k = ucast (b ! k) OR push_bit 8 (ucast (b ! (k + 1)))
     OR push_bit 16 (ucast (b ! (k + 2))) OR push_bit 24 (ucast (b ! (k + 3)))"

definition htole16 :: "16 word \<Rightarrow> bytes" where
  "htole16 v = [ucast v, ucast (drop_bit 8 v)]"

definition htole32 :: "32 word \<Rightarrow> bytes" where
  "htole32 v = [ucast v, ucast (drop_bit 8 v), ucast (drop_bit 16 v), ucast (drop_bit 24 v)]"

section \<open>fs.c: FCB names\<close>

text \<open>\<^verbatim>\<open>upchar\<close>: the upper-case variant of a character.\<close>

definition upchar :: "byte \<Rightarrow> byte" where
  "upchar c = (if 0x61 \<le> c \<and> c \<le> 0x7A then c - 0x20 else c)"

text \<open>
  \<^verbatim>\<open>filename2fcb(d, s)\<close>.  The block \<open>d\<close> is first filled with 11 spaces.  The first loop
  copies leading dots (at most 8) and leaves \<open>i\<close> at the first byte that is not a dot.
\<close>

definition lead_dots :: "bytes \<Rightarrow> nat" where
  "lead_dots s = min 8 (length (takeWhile (\<lambda>c. c = 0x2E) s))"

text \<open>
  The second loop, \<^verbatim>\<open>for (; i < 8; i++)\<close>: \<open>r\<close> is the string at \<^verbatim>\<open>s + j\<close>.  Each round
  stops at a dot or at the terminator, otherwise skips spaces and stores the upper-cased
  byte that follows them.  The byte after the spaces is not tested again: it is stored
  even when it is a dot or the terminator; after the terminator has been stored, \<open>j\<close>
  points behind the string, and a further round would read there.
\<close>

function name_loop :: "nat \<Rightarrow> bytes \<Rightarrow> bytes \<Rightarrow> fault + (nat \<times> bytes)" where
  "name_loop i r d =
     (if i < 8 then
        (case r of
           [] \<Rightarrow> Inr (i, d)
         | c # _ \<Rightarrow>
             if c = 0x2E \<or> c = 0 then Inr (i, d)
             else
               (case dropWhile (\<lambda>c. c = 0x20) r of
                  [] \<Rightarrow> if i + 1 < 8 then Inl ReadPastEnd else Inr (i + 1, d[i := upchar 0])
                | c' # r' \<Rightarrow> name_loop (i + 1) r' (d[i := upchar c'])))
      else Inr (i, d))"
  by pat_completeness auto
termination
  by (relation "measure (\<lambda>(i, r, d). 8 - i)") auto

declare name_loop.simps [simp del]

text \<open>The last loop, \<^verbatim>\<open>for (j = 0; j < 3; j++)\<close>: the extension, written from \<open>d[8]\<close> on.\<close>

fun ext_loop :: "nat \<Rightarrow> bytes \<Rightarrow> bytes \<Rightarrow> bytes" where
  "ext_loop j [] d = d"
| "ext_loop j (c # cs) d =
     (if j < 3 then
        (if c = 0x2E \<or> c = 0 \<or> c = 0x20 then d
         else ext_loop (j + 1) cs (d[8 + j := upchar c]))
      else d)"

text \<open>
  After the name, \<^verbatim>\<open>s += i\<close> (the number of bytes written, not the read position \<open>j\<close>),
  then the pointer moves forward to the first dot or to the terminator.
\<close>

definition filename2fcb :: "bytes \<Rightarrow> fault + bytes" where
  "filename2fcb s0 =
     (let s = cstr s0;
          i0 = lead_dots s;
          d0 = replicate i0 0x2E @ replicate (11 - i0) 0x20
      in case name_loop i0 (drop i0 s) d0 of
           Inl f \<Rightarrow> Inl f
         | Inr (i, d) \<Rightarrow>
             (case dropWhile (\<lambda>c. c \<noteq> 0x2E) (drop i s) of
                [] \<Rightarrow> Inr d
              | dot # e \<Rightarrow> Inr (ext_loop 0 e d)))"

text \<open>\<^verbatim>\<open>matchfile2mask(msk, fil)\<close>: 0 when the FCB name matches the FCB mask, -1 otherwise.\<close>

definition matchfile2mask :: "bytes \<Rightarrow> bytes \<Rightarrow> int" where
  "matchfile2mask msk fil =
     (if list_ex (\<lambda>i. upchar (fil ! i) \<noteq> upchar (msk ! i) \<and> msk ! i \<noteq> 0x3F) [0..<11]
      then - 1 else 0)"

section \<open>The host: C library and operating system\<close>

text \<open>
  The server reaches the host only through the C library.  The calls it makes are the
  fields of an environment record over an arbitrary type \<open>'w\<close> of host states; nothing
  is assumed about them, so every theorem below holds for every host.  The header
  \<^verbatim>\<open>fs.h\<close> is not among the sources: the constants it defines (\<^verbatim>\<open>DIR_MAX\<close>,
  \<^verbatim>\<open>FFILE_ISROOT\<close>, \<^verbatim>\<open>FFILE_ISFAT\<close>) are fields of the environment as well.  The model
  follows the Linux branch of the conditional compilation, on a little-endian LP64 host
  (\<^verbatim>\<open>unsigned long\<close> and \<^verbatim>\<open>long\<close> are 64 bits wide).
\<close>

record statbuf =
  st_isdir :: bool      \<comment> \<open>\<^verbatim>\<open>S_ISDIR(st_mode)\<close>\<close>
  st_size :: nat
  st_mtime :: int

record dirent =
  d_name :: bytes
  d_isdir :: bool       \<comment> \<open>\<^verbatim>\<open>d_type == DT_DIR\<close>\<close>

record tm =
  tm_sec :: int
  tm_min :: int
  tm_hour :: int
  tm_mday :: int
  tm_mon :: int
  tm_year :: int

record statvfs_buf =
  f_bsize :: "64 word"
  f_frsize :: "64 word"
  f_blocks :: "64 word"
  f_bfree :: "64 word"

text \<open>\<^verbatim>\<open>open(i, O_RDONLY)\<close> followed by \<^verbatim>\<open>ioctl(fd, FAT_IOCTL_GET_ATTRIBUTES, &attr)\<close>.\<close>

datatype fat_ioctl = OpenFailed | IoctlFailed | FatAttr "32 word"

text \<open>
  \<^verbatim>\<open>struct fileprops\<close> is declared in \<^verbatim>\<open>fs.h\<close>; its fields are the ones the sources use.
  \<open>fcbname\<close> holds the 11 bytes of the FCB block; \<open>fsize\<close> and \<open>ftime\<close> are taken to be
  \<^verbatim>\<open>unsigned long\<close> (they are printed with \<^verbatim>\<open>%lu\<close> and assigned from \<^verbatim>\<open>time2dos\<close>).
\<close>

record fileprops =
  fcbname :: bytes
  fsize :: "64 word"
  ftime :: "64 word"
  fattr :: byte

text \<open>One entry of \<^verbatim>\<open>fsdb[65536]\<close>; a NULL \<open>name\<close> is \<open>None\<close>, a NULL \<open>dirlist\<close> is \<open>[]\<close>.\<close>

record sfsdb =
  name :: "bytes option"
  lastused :: int
  dirlist :: "fileprops list"

type_synonym fsdb = "nat \<Rightarrow> sfsdb"

text \<open>
  What the handler of one query does: it either answers, with the value of AX and the
  bytes it has written from \<^verbatim>\<open>answ + 60\<close> on (their number is \<^verbatim>\<open>reslen\<close>), or it leaves
  \<^verbatim>\<open>process\<close> at once with a return value.  Both carry the handle table and the host
  state they leave behind.
\<close>

datatype 'w outcome =
    Answer "16 word" bytes fsdb 'w
  | Ignore int fsdb 'w

record 'w env =
  c_stat :: "'w \<Rightarrow> bytes \<Rightarrow> statbuf option"
  c_localtime :: "int \<Rightarrow> tm option"
  c_fat_getattr :: "'w \<Rightarrow> bytes \<Rightarrow> fat_ioctl"
  c_readdir :: "'w \<Rightarrow> bytes \<Rightarrow> dirent list option"
    \<comment> \<open>\<^verbatim>\<open>opendir\<close> and the entries \<^verbatim>\<open>readdir\<close> then returns; \<open>None\<close> when \<^verbatim>\<open>opendir\<close> fails\<close>
  c_calloc_ok :: "'w \<Rightarrow> nat \<Rightarrow> bool"
    \<comment> \<open>whether \<^verbatim>\<open>calloc\<close> succeeds for the node of the k-th directory entry\<close>
  c_unlink :: "'w \<Rightarrow> bytes \<Rightarrow> int \<times> 'w"
  c_truncate :: "'w \<Rightarrow> bytes \<Rightarrow> nat \<Rightarrow> int \<times> 'w"
  c_fread :: "'w \<Rightarrow> bytes \<Rightarrow> nat \<Rightarrow> nat \<Rightarrow> bytes option"
    \<comment> \<open>\<^verbatim>\<open>fopen(rb)\<close>, \<^verbatim>\<open>fseek\<close>, \<^verbatim>\<open>fread\<close>: the bytes read; \<open>None\<close> when opening or seeking fails\<close>
  c_fwrite :: "'w \<Rightarrow> bytes \<Rightarrow> nat \<Rightarrow> bytes \<Rightarrow> nat option \<times> 'w"
    \<comment> \<open>\<^verbatim>\<open>fopen(r+b)\<close>, \<^verbatim>\<open>fseek\<close>, \<^verbatim>\<open>fwrite\<close>: the count written; \<open>None\<close> when opening or seeking fails\<close>
  c_statvfs :: "'w \<Rightarrow> bytes \<Rightarrow> statvfs_buf option"
  DIR_MAX :: nat
  FFILE_ISROOT :: int
  FFILE_ISFAT :: int
  other_query :: "'w \<Rightarrow> fsdb \<Rightarrow> bytes \<Rightarrow> byte \<Rightarrow> byte \<Rightarrow> bytes \<Rightarrow> int \<Rightarrow> fault + 'w outcome"
    \<comment> \<open>the handlers of FINDFIRST, MKDIR, RMDIR, CHDIR, SETATTR, GETATTR, RENAME, OPEN, CREATE
       and SPOPNFIL, applied to host state, handle table, root, \<^verbatim>\<open>drivesfat[reqdrv]\<close>, query,
       payload buffer and payload length; they are left arbitrary\<close>

section \<open>fs.c: attributes, directory listings, files\<close>

text \<open>\<^verbatim>\<open>time2dos\<close>: a \<^verbatim>\<open>time_t\<close> as a DOS time stamp, computed in \<^verbatim>\<open>unsigned long\<close>.\<close>

definition time2dos :: "'w env \<Rightarrow> int \<Rightarrow> 64 word" where
  "time2dos E t =
     (case c_localtime E t of
        None \<Rightarrow> 0
      | Some lt \<Rightarrow>
          (let res = of_int (tm_year lt - 80);
               res = push_bit 4 res;
               res = res OR of_int (tm_mon lt + 1);
               res = push_bit 5 res;
               res = res OR of_int (tm_mday lt);
               res = push_bit 5 res;
               res = res OR of_int (tm_hour lt);
               res = push_bit 6 res;
               res = res OR of_int (tm_min lt);
               res = push_bit 5 res;
               res = res OR of_int (tm_sec lt div 2)
           in res))"

text \<open>The file part of a path, as \<^verbatim>\<open>getitemattr\<close> finds it: the string behind the last
  slash or backslash that is not the last byte of the path.\<close>

fun fname_scan :: "bytes \<Rightarrow> bytes \<Rightarrow> bytes" where
  "fname_scan cur [] = cur"
| "fname_scan cur (c # cs) =
     (if (c = 0x2F \<or> c = 0x5C) \<and> cs \<noteq> [] then fname_scan cs cs else fname_scan cur cs)"

definition zero_fprops :: fileprops where
  "zero_fprops = \<lparr>fcbname = replicate 11 0, fsize = 0, ftime = 0, fattr = 0\<rparr>"

text \<open>
  \<^verbatim>\<open>getitemattr(i, fprops, fatflag)\<close>.  \<open>fp\<close> is what \<open>fprops\<close> points to (\<open>None\<close> for NULL);
  the result is the attribute byte and what \<open>fprops\<close> points to afterwards.
\<close>

definition getitemattr ::
  "'w env \<Rightarrow> 'w \<Rightarrow> bytes \<Rightarrow> fileprops option \<Rightarrow> byte \<Rightarrow> fault + (byte \<times> fileprops option)" where
  "getitemattr E w i fp fatflag =
     (case c_stat E w i of
        None \<Rightarrow> Inr (0xFF, fp)
      | Some sb \<Rightarrow>
          (case (case fp of
                   None \<Rightarrow> Inr None
                 | Some _ \<Rightarrow>
                     (case filename2fcb (fname_scan i i) of
                        Inl f \<Rightarrow> Inl f
                      | Inr fcb \<Rightarrow>
                          Inr (Some \<lparr>fcbname = fcb, fsize = 0,
                                     ftime = time2dos E (st_mtime sb), fattr = 0\<rparr>))) of
             Inl f \<Rightarrow> Inl f
           | Inr fp1 \<Rightarrow>
               if st_isdir sb then Inr (16, map_option (\<lambda>p. p\<lparr>fattr := 16\<rparr>) fp1)
               else
                 (let fp2 = map_option (\<lambda>p. p\<lparr>fsize := of_nat (st_size sb)\<rparr>) fp1
                  in if fatflag = 0 then Inr (0x20, fp2)
                     else
                       (case c_fat_getattr E w i of
                          OpenFailed \<Rightarrow> Inr (0xFF, fp2)
                        | IoctlFailed \<Rightarrow> Inr (0, fp2)
                        | FatAttr a \<Rightarrow>
                            Inr (ucast a, map_option (\<lambda>p. p\<lparr>fattr := ucast a\<rparr>) fp2)))))"

text \<open>
  \<^verbatim>\<open>gendirlist\<close>: the loop over the directory entries.  \<open>pre\<close> is the directory name
  followed by a slash, \<open>k\<close> counts the entries.  A node that \<^verbatim>\<open>getitemattr\<close> does not fill
  (the path is too long, or \<^verbatim>\<open>stat\<close> fails) stays as \<^verbatim>\<open>calloc\<close> left it.
\<close>

fun gendir_loop :: "'w env \<Rightarrow> 'w \<Rightarrow> bytes \<Rightarrow> byte \<Rightarrow> nat \<Rightarrow> dirent list \<Rightarrow> fault + fileprops list" where
  "gendir_loop E w pre fatflag k [] = Inr []"
| "gendir_loop E w pre fatflag k (e # es) =
     (if \<not> c_calloc_ok E w k then Inr []
      else
        (case (if length pre + length (d_name e) < 1023
               then getitemattr E w (pre @ d_name e) (Some zero_fprops) fatflag
               else Inr (0, Some zero_fprops)) of
           Inl f \<Rightarrow> Inl f
         | Inr (a, fp) \<Rightarrow>
             (case gendir_loop E w pre fatflag (k + 1) es of
                Inl f \<Rightarrow> Inl f
              | Inr ps \<Rightarrow> Inr ((case fp of None \<Rightarrow> zero_fprops | Some p \<Rightarrow> p) # ps))))"

text \<open>\<^verbatim>\<open>gendirlist(root, fatflag)\<close>: the number of entries (or -1) and the new value of
  \<open>*root\<close>.  \<^verbatim>\<open>fullpath\<close> has 1024 bytes.\<close>

definition gendirlist :: "'w env \<Rightarrow> 'w \<Rightarrow> sfsdb \<Rightarrow> byte \<Rightarrow> fault + (int \<times> sfsdb)" where
  "gendirlist E w root fatflag =
     (let root0 = root\<lparr>dirlist := []\<rparr>
      in case name root of
           None \<Rightarrow> Inl NullDeref
         | Some nm \<Rightarrow>
             (case c_readdir E w nm of
                None \<Rightarrow> Inr (- 1, root0)
              | Some ents \<Rightarrow>
                  if length nm + 2 > 1024 then Inl (BufferOverflow (length nm + 2))
                  else
                    (case gendir_loop E w (nm @ [0x2F]) fatflag 0 ents of
                       Inl f \<Rightarrow> Inl f
                     | Inr ps \<Rightarrow> Inr (int (length ps), root0\<lparr>dirlist := ps\<rparr>))))"

text \<open>
  \<^verbatim>\<open>findfile\<close>: the loop over the cached listing.  \<open>n\<close> counts the nodes passed so far,
  \<open>nthp\<close> is the cursor \<^verbatim>\<open>*nth\<close>; the result is the 1-based position and the properties of
  the first node the loop stops at, or \<open>None\<close> when the list is exhausted.
\<close>

fun findfile_scan ::
  "'w env \<Rightarrow> fileprops list \<Rightarrow> nat \<Rightarrow> nat \<Rightarrow> bytes \<Rightarrow> byte \<Rightarrow> int \<Rightarrow> (nat \<times> fileprops) option" where
  "findfile_scan E [] n nthp fcbtmpl attr flags = None"
| "findfile_scan E (p # ps) n nthp fcbtmpl attr flags =
     (if n + 1 \<le> nthp then findfile_scan E ps (n + 1) nthp fcbtmpl attr flags
      else if fcbname p ! 0 = 0x2E \<and> (flags AND FFILE_ISROOT E) \<noteq> 0
        then findfile_scan E ps (n + 1) nthp fcbtmpl attr flags
      else if matchfile2mask fcbtmpl (fcbname p) \<noteq> 0
        then findfile_scan E ps (n + 1) nthp fcbtmpl attr flags
      else if attr = 0x08
        then (if fattr p AND 0x08 = 0
              then findfile_scan E ps (n + 1) nthp fcbtmpl attr flags
              else Some (n + 1, p))
      else (if (attr OR (fattr p AND 0x16)) \<noteq> attr
            then findfile_scan E ps (n + 1) nthp fcbtmpl attr flags
            else Some (n + 1, p)))"

text \<open>\<^verbatim>\<open>findfile(f, dss, fcbtmpl, attr, nth, flags)\<close>: \<open>None\<close> for the return value -1,
  otherwise \<open>*f\<close> and \<open>*nth\<close> as they are set on the return of 0; and the handle table
  afterwards.\<close>

definition findfile ::
  "'w env \<Rightarrow> 'w \<Rightarrow> fsdb \<Rightarrow> 16 word \<Rightarrow> bytes \<Rightarrow> byte \<Rightarrow> 16 word \<Rightarrow> int
     \<Rightarrow> fault + ((fileprops \<times> 16 word) option \<times> fsdb)" where
  "findfile E w db dss fcbtmpl attr nthp flags =
     (case (if nthp = 0 \<or> dirlist (db (unat dss)) = []
            then gendirlist E w (db (unat dss)) (of_int (flags AND FFILE_ISFAT E))
            else Inr (0, db (unat dss))) of
        Inl f \<Rightarrow> Inl f
      | Inr (count, slot) \<Rightarrow>
          (let db' = db(unat dss := slot)
           in if count < 0 then Inr (None, db')
              else
                (case findfile_scan E (dirlist slot) 0 (unat nthp) fcbtmpl attr flags of
                   None \<Rightarrow> Inr (None, db')
                 | Some (n, p) \<Rightarrow> Inr (Some (p, of_nat n), db'))))"

text \<open>\<^verbatim>\<open>diskinfo(path, dfree)\<close>: the total size and the new value of \<open>*dfree\<close>.\<close>

definition diskinfo :: "'w env \<Rightarrow> 'w \<Rightarrow> bytes \<Rightarrow> 64 word \<Rightarrow> 64 word \<times> 64 word" where
  "diskinfo E w path dfree =
     (case c_statvfs E w path of
        None \<Rightarrow> (0, dfree)
      | Some buf \<Rightarrow> (f_blocks buf * f_frsize buf, f_bfree buf * f_bsize buf))"

text \<open>\<^verbatim>\<open>readfile(buff, fss, offset, len)\<close>: the return value and the bytes stored at \<open>buff\<close>.\<close>

definition readfile :: "'w env \<Rightarrow> 'w \<Rightarrow> fsdb \<Rightarrow> 16 word \<Rightarrow> 32 word \<Rightarrow> 16 word \<Rightarrow> int \<times> bytes" where
  "readfile E w db fss offset n =
     (case name (db (unat fss)) of
        None \<Rightarrow> (- 1, [])
      | Some fname \<Rightarrow>
          (case c_fread E w fname (unat offset) (unat n) of
             None \<Rightarrow> (- 1, [])
           | Some data \<Rightarrow> (int (length data), data)))"

text \<open>\<^verbatim>\<open>writefile(buff, fss, offset, len)\<close>: the return value and the host state afterwards.
  The result of \<^verbatim>\<open>truncate\<close> is ignored.\<close>

definition writefile :: "'w env \<Rightarrow> 'w \<Rightarrow> fsdb \<Rightarrow> bytes \<Rightarrow> 16 word \<Rightarrow> 32 word \<Rightarrow> 16 word \<Rightarrow> int \<times> 'w" where
  "writefile E w db buff fss offset n =
     (case name (db (unat fss)) of
        None \<Rightarrow> (- 1, w)
      | Some fname \<Rightarrow>
          if n = 0 then (0, snd (c_truncate E w fname (unat offset)))
          else
            (case c_fwrite E w fname (unat offset) (take (unat n) buff) of
               (None, w') \<Rightarrow> (- 1, w')
             | (Some k, w') \<Rightarrow> (int k, w')))"

text \<open>\<^verbatim>\<open>getfopsize(fss)\<close>: the size of an open file, -1 when the handle or the file is gone.\<close>

definition getfopsize :: "'w env \<Rightarrow> 'w \<Rightarrow> fsdb \<Rightarrow> 16 word \<Rightarrow> fault + int" where
  "getfopsize E w db fss =
     (case name (db (unat fss)) of
        None \<Rightarrow> Inr (- 1)
      | Some fname \<Rightarrow>
          (case getitemattr E w fname (Some zero_fprops) 0 of
             Inl f \<Rightarrow> Inl f
           | Inr (a, fp) \<Rightarrow>
               if a = 0xFF then Inr (- 1)
               else Inr (sint (fsize (case fp of None \<Rightarrow> zero_fprops | Some p \<Rightarrow> p)))))"

text \<open>
  \<^verbatim>\<open>shorttolong(dst, src, root)\<close>.  \<^verbatim>\<open>strtok(src, "/")\<close> yields the non-empty pieces between
  slashes; \<open>cur\<close> is the piece being collected.
\<close>

fun strtok_slash :: "bytes \<Rightarrow> bytes \<Rightarrow> bytes list" where
  "strtok_slash cur [] = (if cur = [] then [] else [cur])"
| "strtok_slash cur (c # cs) =
     (if c = 0x2F then (if cur = [] then strtok_slash [] cs else cur # strtok_slash [] cs)
      else strtok_slash (cur @ [c]) cs)"

text \<open>
  The inner loop over the entries of the directory \<open>dst\<close>: the first entry other than
  \<^verbatim>\<open>.\<close> and \<^verbatim>\<open>..\<close> whose FCB name equals (\<^verbatim>\<open>strcmp\<close>) the FCB name of the token; when more
  tokens follow, only a directory will do.
\<close>

fun shorttolong_find :: "bytes \<Rightarrow> bool \<Rightarrow> dirent list \<Rightarrow> fault + dirent option" where
  "shorttolong_find to_find has_next [] = Inr None"
| "shorttolong_find to_find has_next (e # es) =
     (if d_name e = [0x2E] \<or> d_name e = [0x2E, 0x2E] then shorttolong_find to_find has_next es
      else
        (case filename2fcb (d_name e) of
           Inl f \<Rightarrow> Inl f
         | Inr tmp_fcb \<Rightarrow>
             if cstr tmp_fcb = cstr to_find
             then (if has_next \<and> \<not> d_isdir e then shorttolong_find to_find has_next es
                   else Inr (Some e))
             else shorttolong_find to_find has_next es))"

text \<open>The outer loop over the tokens; \<open>dst\<close> is the destination string written so far.\<close>

fun shorttolong_walk :: "'w env \<Rightarrow> 'w \<Rightarrow> bytes \<Rightarrow> bytes list \<Rightarrow> fault + (int \<times> bytes)" where
  "shorttolong_walk E w dst [] = Inr (0, dst)"
| "shorttolong_walk E w dst (tmpdir # tmpdir_next) =
     (case filename2fcb tmpdir of
        Inl f \<Rightarrow> Inl f
      | Inr to_find \<Rightarrow>
          (case c_readdir E w dst of
             None \<Rightarrow> Inr (- 1, dst)
           | Some ents \<Rightarrow>
               (case shorttolong_find to_find (tmpdir_next \<noteq> []) ents of
                  Inl f \<Rightarrow> Inl f
                | Inr None \<Rightarrow> Inr (- 1, dst @ tmpdir)
                | Inr (Some e) \<Rightarrow>
                    shorttolong_walk E w
                      (dst @ d_name e @ (if tmpdir_next \<noteq> [] then [0x2F] else [])) tmpdir_next)))"

text \<open>The return value and the string left in \<open>dst\<close>, a buffer of \<open>cap\<close> bytes.\<close>

definition shorttolong :: "'w env \<Rightarrow> 'w \<Rightarrow> nat \<Rightarrow> bytes \<Rightarrow> bytes \<Rightarrow> fault + (int \<times> bytes)" where
  "shorttolong E w cap src root =
     (if take (length root) src \<noteq> root then Inl AssertFail
      else
        (case (case drop (length root) src of
                 [] \<Rightarrow> Inr (- 1, root @ [0x2F])
               | c # rest \<Rightarrow>
                   if c \<noteq> 0x2F then Inr (- 1, root @ [0x2F])
                   else shorttolong_walk E w (root @ [0x2F]) (strtok_slash [] rest)) of
           Inl f \<Rightarrow> Inl f
         | Inr (rc, dst) \<Rightarrow>
             if length dst + 1 > cap then Inl (BufferOverflow (length dst + 1))
             else Inr (rc, dst)))"

text \<open>
  \<^verbatim>\<open>delfiles(pattern)\<close>.  \<open>fileoffset\<close> is the index of the last slash (0 when there is
  none); \<^verbatim>\<open>patterncopy\<close> and \<^verbatim>\<open>fname\<close> have 512 bytes.  The directory is enumerated as
  it is when \<^verbatim>\<open>opendir\<close> returns; a failing \<^verbatim>\<open>unlink\<close> is ignored in the loop.
\<close>

fun last_slash :: "nat \<Rightarrow> nat \<Rightarrow> bytes \<Rightarrow> nat" where
  "last_slash i fileoffset [] = fileoffset"
| "last_slash i fileoffset (c # cs) = last_slash (i + 1) (if c = 0x2F then i else fileoffset) cs"

fun delfiles_loop :: "'w env \<Rightarrow> 'w \<Rightarrow> bytes \<Rightarrow> bytes \<Rightarrow> dirent list \<Rightarrow> fault + 'w" where
  "delfiles_loop E w dir filfcb [] = Inr w"
| "delfiles_loop E w dir filfcb (e # es) =
     (if d_isdir e then delfiles_loop E w dir filfcb es
      else
        (case filename2fcb (d_name e) of
           Inl f \<Rightarrow> Inl f
         | Inr dirnamefcb \<Rightarrow>
             if matchfile2mask filfcb dirnamefcb = 0
             then (if length dir + length (d_name e) + 2 > 512
                   then Inl (BufferOverflow (length dir + length (d_name e) + 2))
                   else delfiles_loop E (snd (c_unlink E w (dir @ [0x2F] @ d_name e)))
                          dir filfcb es)
             else delfiles_loop E w dir filfcb es))"

definition delfiles :: "'w env \<Rightarrow> 'w \<Rightarrow> bytes \<Rightarrow> fault + (int \<times> 'w)" where
  "delfiles E w pattern =
     (if length pattern + 1 > 512 then Inl (BufferOverflow (length pattern + 1))
      else if 0x3F \<notin> set pattern
      then (case c_unlink E w pattern of
              (r, w') \<Rightarrow> if r \<noteq> 0 then Inr (- 1, w') else Inr (1, w'))
      else
        (let fileoffset = last_slash 0 0 pattern;
             dir = take fileoffset pattern;
             fil = drop (fileoffset + 1) pattern
         in case filename2fcb fil of
              Inl f \<Rightarrow> Inl f
            | Inr filfcb \<Rightarrow>
                (case c_readdir E w dir of
                   None \<Rightarrow> Inr (- 1, w)
                 | Some ents \<Rightarrow>
                     (case delfiles_loop E w dir filfcb ents of
                        Inl f \<Rightarrow> Inl f
                      | Inr w' \<Rightarrow> Inr (0, w')))))"

section \<open>ethersrv.c: helpers\<close>

text \<open>\<^verbatim>\<open>lostring(s, -1)\<close>: \<^verbatim>\<open>tolower\<close> (in the C locale) on every byte of the string.\<close>

definition lostring :: "bytes \<Rightarrow> bytes" where
  "lostring s = map (\<lambda>c. if 0x41 \<le> c \<and> c \<le> 0x5A then c + 0x20 else c) s"

definition charreplace :: "bytes \<Rightarrow> byte \<Rightarrow> byte \<Rightarrow> bytes" where
  "charreplace s rep repby = map (\<lambda>c. if c = rep then repby else c) s"

text \<open>\<^verbatim>\<open>isroot(root, dir)\<close>; \<open>dir\<close> is \<open>None\<close> for a NULL pointer, which the first loop
  (or, for an empty \<open>root\<close>, the second) dereferences.\<close>

definition isroot :: "bytes \<Rightarrow> bytes option \<Rightarrow> fault + int" where
  "isroot root dir =
     (case dir of
        None \<Rightarrow> Inl NullDeref
      | Some d \<Rightarrow>
          (if 0x2F \<in> set (dropWhile (\<lambda>c. c = 0x2F) (drop (length root) d))
           then Inr 0 else Inr 1))"

text \<open>\<^verbatim>\<open>sstoitem(ss)\<close>.\<close>

definition sstoitem :: "fsdb \<Rightarrow> 16 word \<Rightarrow> bytes option" where
  "sstoitem db ss = name (db (unat ss))"

text \<open>\<^verbatim>\<open>bsdsum(ptr, l)\<close>: rotate right by one, then add, in 16 bits.\<close>

definition bsdsum :: "bytes \<Rightarrow> 16 word \<Rightarrow> 16 word" where
  "bsdsum ptr l =
     fold (\<lambda>b res. (push_bit 15 res OR drop_bit 1 res) + ucast b) (take (unat l) ptr) 0"

text \<open>The answer cache: \<^verbatim>\<open>answcache[ANSWCACHESZ]\<close>, 16 entries with a frame of 1520
  bytes each.\<close>

record struct_answcache =
  frame :: bytes
  timestamp :: int
  len :: "16 word"

text \<open>\<^verbatim>\<open>findcacheentry(clientmac)\<close>, as the index of the entry it returns.\<close>

function findcacheentry_loop :: "(nat \<Rightarrow> struct_answcache) \<Rightarrow> bytes \<Rightarrow> nat \<Rightarrow> nat \<Rightarrow> nat" where
  "findcacheentry_loop c clientmac i oldest =
     (if i < 16 then
        (if take 6 (frame (c i)) = take 6 clientmac then i
         else findcacheentry_loop c clientmac (i + 1)
                (if timestamp (c i) < timestamp (c oldest) then i else oldest))
      else oldest)"
  by pat_completeness auto
termination
  by (relation "measure (\<lambda>(c, m, i, oldest). 16 - i)") auto

declare findcacheentry_loop.simps [simp del]

definition findcacheentry :: "(nat \<Rightarrow> struct_answcache) \<Rightarrow> bytes \<Rightarrow> nat" where
  "findcacheentry c clientmac = findcacheentry_loop c clientmac 0 0"

section \<open>ethersrv.c: the handlers of \<^verbatim>\<open>process\<close>\<close>

text \<open>
  In each handler \<open>p\<close> is the request buffer behind the 60 header bytes
  (\<^verbatim>\<open>reqbuff + 60\<close>) and \<open>n\<close> the payload length (\<^verbatim>\<open>reqbufflen - 60\<close>).  AX is 0 when a
  handler starts.
\<close>

text \<open>\<^verbatim>\<open>AL_DISKSPACE\<close>.\<close>

definition query_diskspace :: "'w env \<Rightarrow> 'w \<Rightarrow> fsdb \<Rightarrow> bytes \<Rightarrow> 'w outcome" where
  "query_diskspace E w db root =
     (let (diskspace, freespace) = diskinfo E w root 0;
          diskspace = (if diskspace \<ge> 2147483647 then 2147483647 else diskspace);
          freespace = (if freespace \<ge> 2147483647 then 2147483647 else freespace);
          diskspace = drop_bit 15 diskspace;
          freespace = drop_bit 15 freespace
      in Answer 1 (htole16 (ucast diskspace) @ htole16 32768 @ htole16 (ucast freespace)) db w)"

text \<open>\<^verbatim>\<open>AL_READFIL\<close> (with \<^verbatim>\<open>reqbufflen == 8\<close>).\<close>

definition query_readfil :: "'w env \<Rightarrow> 'w \<Rightarrow> fsdb \<Rightarrow> bytes \<Rightarrow> 'w outcome" where
  "query_readfil E w db p =
     (let offset = le32 p 0;
          fileid = le16 p 4;
          n = le16 p 6;
          (readlen, data) = readfile E w db fileid offset n
      in if readlen < 0 then Answer 5 [] db w else Answer 0 data db w)"

text \<open>\<^verbatim>\<open>AL_WRITEFIL\<close> (with \<^verbatim>\<open>reqbufflen >= 6\<close>); the length is passed as
  \<^verbatim>\<open>unsigned short\<close>.\<close>

definition query_writefil :: "'w env \<Rightarrow> 'w \<Rightarrow> fsdb \<Rightarrow> bytes \<Rightarrow> int \<Rightarrow> 'w outcome" where
  "query_writefil E w db p n =
     (let offset = le32 p 0;
          fileid = le16 p 4;
          (writelen, w') = writefile E w db (drop 6 p) fileid offset (of_int (n - 6))
      in if writelen < 0 then Answer 5 [] db w'
         else Answer 0 (htole16 (of_int writelen)) db w')"

text \<open>\<^verbatim>\<open>AL_FINDNEXT\<close>.  \<^verbatim>\<open>isroot\<close> is applied to \<^verbatim>\<open>sstoitem(dirss)\<close> before anything else.\<close>

definition fprops_reply :: "fileprops \<Rightarrow> 16 word \<Rightarrow> 16 word \<Rightarrow> bytes" where
  "fprops_reply fp dirss fpos =
     [fattr fp] @ take 11 (fcbname fp) @ htole32 (ucast (ftime fp)) @ htole32 (ucast (fsize fp))
       @ htole16 dirss @ htole16 fpos"

definition query_findnext ::
  "'w env \<Rightarrow> 'w \<Rightarrow> fsdb \<Rightarrow> bytes \<Rightarrow> byte \<Rightarrow> bytes \<Rightarrow> fault + 'w outcome" where
  "query_findnext E w db root fatflag p =
     (let dirss = le16 p 0;
          fpos = le16 p 2;
          fa = p ! 4;
          fcbmask = take 11 (drop 5 p)
      in case isroot root (sstoitem db dirss) of
           Inl f \<Rightarrow> Inl f
         | Inr r \<Rightarrow>
             (let flags = (if r \<noteq> 0 then FFILE_ISROOT E else 0);
                  flags = (if fatflag \<noteq> 0 then flags OR FFILE_ISFAT E else flags)
              in case findfile E w db dirss fcbmask fa fpos flags of
                   Inl f \<Rightarrow> Inl f
                 | Inr (None, db') \<Rightarrow> Inr (Answer 0x12 [] db' w)
                 | Inr (Some (fprops, fpos'), db') \<Rightarrow>
                     Inr (Answer 0 (fprops_reply fprops dirss fpos') db' w)))"

text \<open>\<^verbatim>\<open>AL_DELETE\<close>.  \<^verbatim>\<open>fullpathname\<close> and \<^verbatim>\<open>host_fullpathname\<close> have \<^verbatim>\<open>DIR_MAX\<close> bytes.\<close>

definition query_delete ::
  "'w env \<Rightarrow> 'w \<Rightarrow> fsdb \<Rightarrow> bytes \<Rightarrow> byte \<Rightarrow> bytes \<Rightarrow> int \<Rightarrow> fault + 'w outcome" where
  "query_delete E w db root fatflag p n =
     (if length root + 1 + nat n + 1 > DIR_MAX E
      then Inl (BufferOverflow (length root + 1 + nat n + 1))
      else
        (let fullpathname = root @ [0x2F] @ lostring (cstr (take (nat n) p));
             fullpathname = charreplace fullpathname 0x5C 0x2F
         in case shorttolong E w (DIR_MAX E) fullpathname root of
              Inl f \<Rightarrow> Inl f
            | Inr (rc, host_fullpathname) \<Rightarrow>
                if rc \<noteq> 0 then Inr (Answer 2 [] db w)
                else
                  (case getitemattr E w host_fullpathname None fatflag of
                     Inl f \<Rightarrow> Inl f
                   | Inr (a, fp) \<Rightarrow>
                       if a AND 1 \<noteq> 0 then Inr (Answer 5 [] db w)
                       else
                         (case delfiles E w host_fullpathname of
                            Inl f \<Rightarrow> Inl f
                          | Inr (r, w') \<Rightarrow>
                              if r < 0 then Inr (Answer 2 [] db w')
                              else Inr (Answer 0 [] db w')))))"

text \<open>\<^verbatim>\<open>AL_SKFMEND\<close> (with \<^verbatim>\<open>reqbufflen == 6\<close>).  \<open>offs\<close> is an \<^verbatim>\<open>int32_t\<close>; the sum with
  the \<^verbatim>\<open>long\<close> file size is cut to 32 bits when it is stored back.\<close>

definition query_skfmend :: "'w env \<Rightarrow> 'w \<Rightarrow> fsdb \<Rightarrow> bytes \<Rightarrow> fault + 'w outcome" where
  "query_skfmend E w db p =
     (let offs = le32 p 0;
          fss = le16 p 4;
          offs = (if 0 <s offs then 0 else offs)
      in case getfopsize E w db fss of
           Inl f \<Rightarrow> Inl f
         | Inr fsz \<Rightarrow>
             if fsz < 0 then Inr (Answer 2 [] db w)
             else
               (let offs = (word_of_int (sint offs + fsz) :: 32 word);
                    offs = (if offs <s 0 then 0 else offs)
                in Inr (Answer 0 (htole32 offs) db w)))"

text \<open>The chain of tests on the query byte (\<^verbatim>\<open>AL\<close>), in the order of the source.\<close>

definition dispatch ::
  "'w env \<Rightarrow> 'w \<Rightarrow> fsdb \<Rightarrow> bytes \<Rightarrow> byte \<Rightarrow> byte \<Rightarrow> bytes \<Rightarrow> int \<Rightarrow> fault + 'w outcome" where
  "dispatch E w db root fatflag query p n =
     (if query = 0x0C then Inr (query_diskspace E w db root)
      else if query = 0x08 \<and> n = 8 then Inr (query_readfil E w db p)
      else if query = 0x09 \<and> n \<ge> 6 then Inr (query_writefil E w db p n)
      else if query = 0x0A \<or> query = 0x0B then Inr (Answer 0 [] db w)
      else if query = 0x1B then other_query E w db root fatflag query p n
      else if query = 0x1C then query_findnext E w db root fatflag p
      else if query = 0x03 \<or> query = 0x01 then other_query E w db root fatflag query p n
      else if query = 0x05 then other_query E w db root fatflag query p n
      else if query = 0x06 then Inr (Answer 0 [] db w)
      else if query = 0x0E \<and> n > 1 then other_query E w db root fatflag query p n
      else if query = 0x0F \<and> n > 0 then other_query E w db root fatflag query p n
      else if query = 0x11 \<and> n > 2 then other_query E w db root fatflag query p n
      else if query = 0x13 then query_delete E w db root fatflag p n
      else if query = 0x16 \<or> query = 0x17 \<or> query = 0x2E
        then other_query E w db root fatflag query p n
      else if query = 0x21 \<and> n = 6 then query_skfmend E w db p
      else Inr (Ignore (- 1) db w))"

section \<open>ethersrv.c: \<^verbatim>\<open>process\<close>\<close>

text \<open>The cache check at the head of \<^verbatim>\<open>process\<close>.\<close>

definition cache_hit :: "struct_answcache \<Rightarrow> bytes \<Rightarrow> bool" where
  "cache_hit answer reqbuff =
     (frame answer ! 57 = reqbuff ! 57 \<and> take 6 (frame answer) = take 6 (drop 6 reqbuff)
        \<and> len answer > 0)"

text \<open>The three \<^verbatim>\<open>memcpy\<close> calls that prepare the reply header.\<close>

definition reply_header :: "bytes \<Rightarrow> bytes \<Rightarrow> bytes \<Rightarrow> bytes" where
  "reply_header answ reqbuff mymac =
     (let a = take 60 reqbuff @ drop 60 answ;
          a = take 6 (drop 6 a) @ drop 6 a;
          a = take 6 a @ take 6 mymac @ drop 12 a
      in a)"

text \<open>\<^verbatim>\<open>*ax = v\<close>, where \<^verbatim>\<open>ax = (uint16_t *)answ + 29\<close>: bytes 58 and 59 of the frame.\<close>

definition set_ax :: "bytes \<Rightarrow> 16 word \<Rightarrow> bytes" where
  "set_ax answ v = take 58 answ @ htole16 v @ drop 60 answ"

record 'w presult =
  p_ret :: int                  \<comment> \<open>the return value of \<^verbatim>\<open>process\<close>\<close>
  p_answer :: struct_answcache  \<comment> \<open>\<^verbatim>\<open>*answer\<close> afterwards\<close>
  p_fsdb :: fsdb
  p_world :: 'w

text \<open>
  \<^verbatim>\<open>process(answer, reqbuff, reqbufflen, mymac, rootarray)\<close>, with the global
  \<^verbatim>\<open>drivesfat\<close>, the handle table and the host state.  The bytes a handler writes go to
  \<^verbatim>\<open>answer->frame + 60\<close>; the frame has 1520 bytes.
\<close>

definition process ::
  "'w env \<Rightarrow> bytes \<Rightarrow> (nat \<Rightarrow> bytes option) \<Rightarrow> (nat \<Rightarrow> byte) \<Rightarrow> struct_answcache \<Rightarrow> fsdb \<Rightarrow> 'w
     \<Rightarrow> bytes \<Rightarrow> int \<Rightarrow> fault + 'w presult" where
  "process E mymac rootarray drivesfat answer db w reqbuff reqbufflen =
     (if reqbufflen < 60
      then Inr \<lparr>p_ret = - 1, p_answer = answer, p_fsdb = db, p_world = w\<rparr>
      else if cache_hit answer reqbuff
      then Inr \<lparr>p_ret = uint (len answer), p_answer = answer, p_fsdb = db, p_world = w\<rparr>
      else
        (let answ = reply_header (frame answer) reqbuff mymac;
             reqdrv = unat (reqbuff ! 58 AND 31);
             query = reqbuff ! 59
         in if reqdrv < 2 \<or> reqdrv > 25
            then Inr \<lparr>p_ret = - 3, p_answer = answer\<lparr>frame := answ\<rparr>, p_fsdb = db, p_world = w\<rparr>
            else
              (case rootarray reqdrv of
                 None \<Rightarrow>
                   Inr \<lparr>p_ret = - 3, p_answer = answer\<lparr>frame := answ\<rparr>, p_fsdb = db,
                        p_world = w\<rparr>
               | Some root \<Rightarrow>
                   (let answ = set_ax answ 0
                    in case dispatch E w db root (drivesfat reqdrv) query (drop 60 reqbuff)
                              (reqbufflen - 60) of
                         Inl f \<Rightarrow> Inl f
                       | Inr (Ignore r db' w') \<Rightarrow>
                           Inr \<lparr>p_ret = r, p_answer = answer\<lparr>frame := answ\<rparr>, p_fsdb = db',
                                p_world = w'\<rparr>
                       | Inr (Answer ax data db' w') \<Rightarrow>
                           if 60 + length data > 1520
                           then Inl (BufferOverflow (60 + length data))
                           else
                             Inr \<lparr>p_ret = 60 + int (length data),
                                  p_answer = answer\<lparr>frame :=
                                    take 60 (set_ax answ ax) @ data
                                      @ drop (60 + length data) answ\<rparr>,
                                  p_fsdb = db', p_world = w'\<rparr>))))"

section \<open>ethersrv.c: one round of the main loop\<close>

text \<open>The start-up configuration: the local MAC address, the drive roots
  (\<^verbatim>\<open>root[26]\<close>, NULL is \<open>None\<close>) and \<^verbatim>\<open>drivesfat[26]\<close>.\<close>

record config =
  cfg_mymac :: bytes
  cfg_root :: "nat \<Rightarrow> bytes option"
  cfg_drivesfat :: "nat \<Rightarrow> byte"

text \<open>The state the loop works on: the answer cache, the receive buffer
  \<^verbatim>\<open>rx_buffer[BUFF_LEN]\<close> of 2048 bytes, the handle table and the host.\<close>

record 'w server =
  answcache :: "nat \<Rightarrow> struct_answcache"
  rx_buffer :: bytes
  fsdb :: fsdb
  world :: 'w

text \<open>\<^verbatim>\<open>recv(sock, buff, BUFF_LEN, MSG_DONTWAIT)\<close> of a datagram: the buffer afterwards and
  the length returned.\<close>

definition recv :: "bytes \<Rightarrow> bytes \<Rightarrow> bytes \<times> int" where
  "recv buff dgram =
     (let k = min (length dgram) 2048 in (take k dgram @ drop k buff, int k))"

text \<open>The checks between \<^verbatim>\<open>recv\<close> and the cache lookup: \<open>None\<close> when the frame is
  dropped (\<^verbatim>\<open>continue\<close>), otherwise the length to go on with and \<^verbatim>\<open>cksumflag\<close>.\<close>

definition validate :: "bytes \<Rightarrow> bytes \<Rightarrow> int \<Rightarrow> (int \<times> byte) option" where
  "validate mymac buff n =
     (if n < 60 then None
      else if take 6 mymac \<noteq> take 6 buff \<and> replicate 6 0xFF \<noteq> take 6 buff then None
      else if [buff ! 12, buff ! 13] \<noteq> [0xED, 0xF5] then None
      else if buff ! 56 AND 127 \<noteq> 2 then None
      else
        (let cksumflag = drop_bit 7 (buff ! 56);
             edf5framelen = le16 buff 52
         in if edf5framelen > 0 \<and> (uint edf5framelen > n \<or> edf5framelen < 60) then None
            else
              (let n = (if edf5framelen > 0 then uint edf5framelen else n)
               in if cksumflag \<noteq> 0 \<and> bsdsum (drop 56 buff) (of_int (n - 56)) \<noteq> le16 buff 54
                  then None
                  else Some (n, cksumflag))))"

text \<open>
  ``Prepare outgoing frame'': the length goes to bytes 52 and 53; with the check sum flag
  the sum over the bytes from 56 on goes to bytes 54 and 55 and bit 7 of byte 56 is set,
  without it the three are cleared.
\<close>

definition fill_frame :: "byte \<Rightarrow> int \<Rightarrow> bytes \<Rightarrow> bytes" where
  "fill_frame cksumflag n f0 =
     (let f = f0[52 := of_int n, 53 := of_int (n div 256)]
      in if cksumflag \<noteq> 0
         then (let newcksum = bsdsum (drop 56 f) (of_int (n - 56))
               in f[54 := ucast newcksum, 55 := ucast (drop_bit 8 newcksum),
                    56 := f ! 56 OR 128])
         else f[54 := 0, 55 := 0, 56 := f ! 56 AND 127])"

text \<open>
  What follows \<^verbatim>\<open>process\<close>: the cache entry is updated and, for a positive length \<open>n\<close>,
  the frame is prepared and its first \<open>n\<close> bytes are sent.  The stored length is an
  \<^verbatim>\<open>unsigned short\<close>.  Reading the frame beyond its 1520 bytes is a fault.
\<close>

definition finish ::
  "int \<Rightarrow> byte \<Rightarrow> int \<Rightarrow> struct_answcache \<Rightarrow> fault + (struct_answcache \<times> bytes option)" where
  "finish now cksumflag n cacheptr =
     (let cacheptr = (if n \<ge> 0 then cacheptr\<lparr>len := of_int n, timestamp := now\<rparr>
                      else cacheptr\<lparr>len := 0\<rparr>)
      in if n > 0 then
           (if n > 1520 \<or> (cksumflag \<noteq> 0 \<and> n < 56) then Inl (BufferOverflow (nat n))
            else
              (let f = fill_frame cksumflag n (frame cacheptr)
               in Inr (cacheptr\<lparr>frame := f\<rparr>, Some (take (nat n) f))))
         else Inr (cacheptr, None))"

text \<open>One round: the state afterwards and the frame sent, if any.  \<open>now\<close> is what
  \<^verbatim>\<open>time(NULL)\<close> returns.\<close>

definition serve ::
  "'w env \<Rightarrow> config \<Rightarrow> int \<Rightarrow> 'w server \<Rightarrow> bytes \<Rightarrow> fault + ('w server \<times> bytes option)" where
  "serve E cfg now S dgram =
     (let (buff, n) = recv (rx_buffer S) dgram;
          S1 = S\<lparr>rx_buffer := buff\<rparr>
      in case validate (cfg_mymac cfg) buff n of
           None \<Rightarrow> Inr (S1, None)
         | Some (n, cksumflag) \<Rightarrow>
             (let k = findcacheentry (answcache S1) (drop 6 buff)
              in case process E (cfg_mymac cfg) (cfg_root cfg) (cfg_drivesfat cfg)
                        (answcache S1 k) (fsdb S1) (world S1) buff n of
                   Inl f \<Rightarrow> Inl f
                 | Inr r \<Rightarrow>
                     (case finish now cksumflag (p_ret r) (p_answer r) of
                        Inl f \<Rightarrow> Inl f
                      | Inr (entry, sent) \<Rightarrow>
                          Inr (S1\<lparr>answcache := (answcache S1)(k := entry),
                                   fsdb := p_fsdb r, world := p_world r\<rparr>, sent))))"

text \<open>The loop over the frames as they arrive, each with the time at which it is
  served: the frames sent, in order.  A fault ends the run.\<close>

fun main_loop ::
  "'w env \<Rightarrow> config \<Rightarrow> 'w server \<Rightarrow> (int \<times> bytes) list \<Rightarrow> (fault + bytes option) list" where
  "main_loop E cfg S [] = []"
| "main_loop E cfg S ((now, dgram) # rest) =
     (case serve E cfg now S dgram of
        Inl f \<Rightarrow> [Inl f]
      | Inr (S', sent) \<Rightarrow> Inr sent # main_loop E cfg S' rest)"

section \<open>Observing a reply\<close>

text \<open>The return value of \<^verbatim>\<open>process\<close> together with that many leading bytes of the
  answer frame: the bytes the main loop goes on to send when the value is positive.\<close>

definition reply_bytes :: "fault + 'w presult \<Rightarrow> fault + (int \<times> bytes)" where
  "reply_bytes x =
     (case x of
        Inl f \<Rightarrow> Inl f
      | Inr r \<Rightarrow> Inr (p_ret r, take (nat (p_ret r)) (frame (p_answer r))))"

text \<open>The host state \<^verbatim>\<open>process\<close> leaves behind.\<close>

definition world_after :: "fault + 'w presult \<Rightarrow> fault + 'w" where
  "world_after x = (case x of Inl f \<Rightarrow> Inl f | Inr r \<Rightarrow> Inr (p_world r))"

text \<open>The frame a round of the main loop sends, and the state it leaves.\<close>

definition sent_frame :: "fault + ('w server \<times> bytes option) \<Rightarrow> fault + bytes option" where
  "sent_frame x = (case x of Inl f \<Rightarrow> Inl f | Inr (S, sent) \<Rightarrow> Inr sent)"

definition server_after :: "'w server \<Rightarrow> fault + ('w server \<times> bytes option) \<Rightarrow> 'w server" where
  "server_after S0 x = (case x of Inl f \<Rightarrow> S0 | Inr (S, sent) \<Rightarrow> S)"

text \<open>What the checks of the main loop make of a frame that arrives in the state \<open>S\<close>.\<close>

definition accepted :: "config \<Rightarrow> 'w server \<Rightarrow> bytes \<Rightarrow> (int \<times> byte) option" where
  "accepted cfg S dgram =
     (let (buff, n) = recv (rx_buffer S) dgram in validate (cfg_mymac cfg) buff n)"

text \<open>Whether the cache entry looked up for the frame holds a reply for it, and bit 7 of
  byte 56 of the frame stored in that entry.\<close>

definition cached :: "'w server \<Rightarrow> bytes \<Rightarrow> bool" where
  "cached S dgram =
     (let (buff, n) = recv (rx_buffer S) dgram
      in cache_hit (answcache S (findcacheentry (answcache S) (drop 6 buff))) buff)"

definition stored_flag :: "'w server \<Rightarrow> bytes \<Rightarrow> byte" where
  "stored_flag S dgram =
     (let (buff, n) = recv (rx_buffer S) dgram
      in drop_bit 7 (frame (answcache S (findcacheentry (answcache S) (drop 6 buff))) ! 56))"

section \<open>The claimed behaviour, in the words of the specification\<close>

text \<open>The attribute filter of FindFirst and FindNext as the specification words it: a
  request for 0x08 wants the volume bit; any other request rejects a candidate with a
  hidden, system or directory bit (mask 0x16) that was not asked for.\<close>

definition attr_accepts :: "byte \<Rightarrow> byte \<Rightarrow> bool" where
  "attr_accepts attr cand =
     (if attr = 0x08 then cand AND 0x08 \<noteq> 0 else (attr OR (cand AND 0x16)) = attr)"

text \<open>The two tests that precede the attribute filter in the loop of \<^verbatim>\<open>findfile\<close>: the
  dot entries of a root directory are passed over, and the FCB name must match the mask.\<close>

definition examined :: "'w env \<Rightarrow> int \<Rightarrow> bytes \<Rightarrow> fileprops \<Rightarrow> bool" where
  "examined E flags fcbtmpl p =
     (\<not> (fcbname p ! 0 = 0x2E \<and> (flags AND FFILE_ISROOT E) \<noteq> 0)
        \<and> matchfile2mask fcbtmpl (fcbname p) = 0)"

text \<open>
  The FCB conversion in words: 11 spaces; the leading dots (at most 8); then the bytes
  up to the first dot or the end, without spaces and in upper case, as far as 8 bytes
  go; then at most 3 bytes of extension.  \<open>fcb_ext_first\<close> takes the extension behind the
  first dot that follows the leading dots, \<open>fcb_ext_last\<close> behind the last dot of the
  name.
\<close>

definition fcb_name_part :: "bytes \<Rightarrow> bytes" where
  "fcb_name_part s =
     (let k = lead_dots s
      in replicate k 0x2E
           @ take (8 - k) (map upchar (filter (\<lambda>c. c \<noteq> 0x20)
                                         (takeWhile (\<lambda>c. c \<noteq> 0x2E) (drop k s)))))"

definition fcb_ext_of :: "bytes \<Rightarrow> bytes" where
  "fcb_ext_of e = take 3 (map upchar (takeWhile (\<lambda>c. c \<noteq> 0x2E \<and> c \<noteq> 0x20) e))"

definition fcb_block :: "bytes \<Rightarrow> bytes \<Rightarrow> bytes" where
  "fcb_block nm ext =
     nm @ replicate (8 - length nm) 0x20 @ ext @ replicate (3 - length ext) 0x20"

definition fcb_ext_first :: "bytes \<Rightarrow> bytes" where
  "fcb_ext_first s =
     fcb_block (fcb_name_part s)
       (fcb_ext_of (drop 1 (dropWhile (\<lambda>c. c \<noteq> 0x2E) (drop (lead_dots s) s))))"

definition fcb_ext_last :: "bytes \<Rightarrow> bytes" where
  "fcb_ext_last s =
     fcb_block (fcb_name_part s)
       (if 0x2E \<in> set (drop (lead_dots s) s)
        then fcb_ext_of (rev (takeWhile (\<lambda>c. c \<noteq> 0x2E) (rev s)))
        else [])"

section \<open>A small host for concrete runs\<close>

text \<open>A host state with a table of files (path, size, leading content) and a table of
  directories (path, entries in enumeration order).  Every \<^verbatim>\<open>truncate\<close> and every write
  fails on it; the volume has 10 GiB, of which 4 GiB are free.\<close>

record demo_world =
  dw_files :: "(bytes \<times> nat \<times> bytes) list"
  dw_dirs :: "(bytes \<times> dirent list) list"

definition demo_env :: "demo_world env" where
  "demo_env = \<lparr>
     c_stat = (\<lambda>w p. case map_of (dw_dirs w) p of
                 Some es \<Rightarrow> Some \<lparr>st_isdir = True, st_size = 0, st_mtime = 0\<rparr>
               | None \<Rightarrow>
                   (case map_of (dw_files w) p of
                      Some (sz, c) \<Rightarrow> Some \<lparr>st_isdir = False, st_size = sz, st_mtime = 0\<rparr>
                    | None \<Rightarrow> None)),
     c_localtime = (\<lambda>t. None),
     c_fat_getattr = (\<lambda>w p. IoctlFailed),
     c_readdir = (\<lambda>w p. map_of (dw_dirs w) p),
     c_calloc_ok = (\<lambda>w k. True),
     c_unlink = (\<lambda>w p. case map_of (dw_files w) p of
                   None \<Rightarrow> (- 1, w)
                 | Some c \<Rightarrow> (0, w\<lparr>dw_files := filter (\<lambda>(q, c). q \<noteq> p) (dw_files w)\<rparr>)),
     c_truncate = (\<lambda>w p k. (- 1, w)),
     c_fread = (\<lambda>w p off k.
                  map_option (\<lambda>(sz, c). take k (drop off c)) (map_of (dw_files w) p)),
     c_fwrite = (\<lambda>w p off d. (None, w)),
     c_statvfs = (\<lambda>w p. Some \<lparr>f_bsize = 4096, f_frsize = 4096, f_blocks = 2621440,
                               f_bfree = 1048576\<rparr>),
     DIR_MAX = 1024,
     FFILE_ISROOT = 1,
     FFILE_ISFAT = 2,
     other_query = (\<lambda>w db root fatflag query p n. Inr (Ignore (- 1) db w))\<rparr>"

definition dot_entries :: "dirent list" where
  "dot_entries = [\<lparr>d_name = str ''.'', d_isdir = True\<rparr>, \<lparr>d_name = str ''..'', d_isdir = True\<rparr>]"

definition demo_host :: demo_world where
  "demo_host = \<lparr>
     dw_files = [(str ''/srv/TMP/A.TMP'', 3, [1, 2, 3]),
                 (str ''/srv/DATA.BIN'', 2000, replicate 2000 0x41)],
     dw_dirs = [(str ''/srv/'', dot_entries @ [\<lparr>d_name = str ''TMP'', d_isdir = True\<rparr>,
                                               \<lparr>d_name = str ''DATA.BIN'', d_isdir = False\<rparr>]),
                (str ''/srv/TMP/'', dot_entries @ [\<lparr>d_name = str ''A.TMP'', d_isdir = False\<rparr>])]\<rparr>"

text \<open>A second host, whose only file has exactly 2 GiB.\<close>

definition big_host :: demo_world where
  "big_host = \<lparr>
     dw_files = [(str ''/srv/BIG.BIN'', 2147483648, [])],
     dw_dirs = [(str ''/srv/'', dot_entries @ [\<lparr>d_name = str ''BIG.BIN'', d_isdir = False\<rparr>])]\<rparr>"

text \<open>Drive C: is \<^verbatim>\<open>/srv\<close>, not FAT; the local MAC address is 02:00:00:00:00:01.\<close>

definition demo_cfg :: config where
  "demo_cfg = \<lparr>cfg_mymac = [2, 0, 0, 0, 0, 1],
               cfg_root = (\<lambda>d. if d = 2 then Some (str ''/srv'') else None),
               cfg_drivesfat = (\<lambda>d. 0)\<rparr>"

text \<open>Handles 1 to 3 are in use, every other slot is empty.\<close>

definition demo_fsdb :: fsdb where
  "demo_fsdb = (\<lambda>i.
     \<lparr>name = (if i = 1 then Some (str ''/srv/BIG.BIN'')
               else if i = 2 then Some (str ''/srv/DATA.BIN'')
               else if i = 3 then Some (str ''/srv/TMP/A.TMP'')
               else None),
      lastused = 0, dirlist = []\<rparr>)"

definition empty_answer :: struct_answcache where
  "empty_answer = \<lparr>frame = replicate 1520 0, timestamp = 0, len = 0\<rparr>"

text \<open>The server as it is after start-up (static storage is zero), with three handles.\<close>

definition demo_server :: "demo_world server" where
  "demo_server = \<lparr>answcache = (\<lambda>i. empty_answer), rx_buffer = replicate 2048 0,
                  fsdb = demo_fsdb, world = demo_host\<rparr>"

text \<open>A request frame from the client 02:00:00:00:00:09 to the server: protocol byte,
  sequence byte, drive byte, query byte and payload; the length and check sum fields
  are 0.\<close>

definition request :: "byte \<Rightarrow> byte \<Rightarrow> byte \<Rightarrow> byte \<Rightarrow> bytes \<Rightarrow> bytes" where
  "request proto seq drv al payload =
     [2, 0, 0, 0, 0, 1] @ [2, 0, 0, 0, 0, 9] @ [0xED, 0xF5] @ replicate 38 0 @ [0, 0, 0, 0]
       @ [proto, seq, drv, al] @ payload"

text \<open>The same with the check sum flag set and the check sum filled in.\<close>

definition request_ck :: "byte \<Rightarrow> byte \<Rightarrow> byte \<Rightarrow> bytes \<Rightarrow> bytes" where
  "request_ck seq drv al payload =
     (let body = [0x82, seq, drv, al] @ payload;
          ck = bsdsum body (of_nat (length body))
      in [2, 0, 0, 0, 0, 1] @ [2, 0, 0, 0, 0, 9] @ [0xED, 0xF5] @ replicate 38 0 @ [0, 0]
           @ htole16 ck @ body)"

text \<open>The request buffer \<^verbatim>\<open>process\<close> sees after the frame has been received into the
  zeroed \<^verbatim>\<open>rx_buffer\<close>.\<close>

definition in_buffer :: "bytes \<Rightarrow> bytes" where
  "in_buffer dgram = fst (recv (replicate 2048 0) dgram)"

text \<open>\<^verbatim>\<open>process\<close> on such a request, with an empty cache entry, on the host \<open>w\<close>.\<close>

definition demo_process :: "demo_world \<Rightarrow> bytes \<Rightarrow> fault + demo_world presult" where
  "demo_process w dgram =
     process demo_env (cfg_mymac demo_cfg) (cfg_root demo_cfg) (cfg_drivesfat demo_cfg)
       empty_answer demo_fsdb w (in_buffer dgram) (int (length dgram))"

section \<open>FCB conversion\<close>

lemma take_upd_Suc: "i < length d \<Longrightarrow> take (Suc i) (d[i := x]) = take i d @ [x]"
  by (simp add: take_Suc_conv_app_nth)

lemma name_loop_words:
  assumes "0 \<notin> set r" "i \<le> 8" "length d = 11"
    and "takeWhile (\<lambda>c. c \<noteq> 0x2E) r = [] \<or> last (takeWhile (\<lambda>c. c \<noteq> 0x2E) r) \<noteq> 0x20"
  shows "name_loop i r d =
           Inr (i + length (take (8 - i) (map upchar (filter (\<lambda>c. c \<noteq> 0x20) (takeWhile (\<lambda>c. c \<noteq> 0x2E) r)))),
                take i d @ take (8 - i) (map upchar (filter (\<lambda>c. c \<noteq> 0x20) (takeWhile (\<lambda>c. c \<noteq> 0x2E) r)))
                  @ drop (i + length (take (8 - i) (map upchar (filter (\<lambda>c. c \<noteq> 0x20) (takeWhile (\<lambda>c. c \<noteq> 0x2E) r))))) d)"
  using assms
proof (induction i r d rule: name_loop.induct)
  case (1 i r d)
  show ?case
  proof (cases "i < 8")
    case False
    with 1 show ?thesis by (subst name_loop.simps) simp
  next
    case i8: True
    show ?thesis
    proof (cases r)
      case Nil
      with i8 show ?thesis by (subst name_loop.simps) simp
    next
      case (Cons c cs)
      show ?thesis
      proof (cases "c = 0x2E")
        case True
        with i8 Cons show ?thesis by (subst name_loop.simps) simp
      next
        case nd: False
        from Cons "1.prems" have c0: "c \<noteq> 0" by auto
        let ?np = "takeWhile (\<lambda>c. c \<noteq> 0x2E) r"
        from nd Cons have npne: "?np \<noteq> []" by simp
        with "1.prems" have lastnp: "last ?np \<noteq> 0x20" by blast
        let ?sp = "takeWhile (\<lambda>c. c = 0x20) r"
        have notall: "dropWhile (\<lambda>c. c = 0x20) r \<noteq> []"
        proof
          assume "dropWhile (\<lambda>c. c = 0x20) r = []"
          then have "\<forall>x\<in>set r. x = 0x20" by (simp add: dropWhile_eq_Nil_conv)
          moreover have "last ?np \<in> set r" using npne
            by (meson last_in_set set_takeWhileD)
          ultimately show False using lastnp by blast
        qed
        then obtain c' r' where dw: "dropWhile (\<lambda>c. c = 0x20) r = c' # r'"
          by (cases "dropWhile (\<lambda>c. c = 0x20) r") auto
        have rsplit: "r = ?sp @ c' # r'" using dw by (metis takeWhile_dropWhile_id)
        have c'sp: "c' \<noteq> 0x20" using dw hd_dropWhile[of "\<lambda>c. c = 0x20" r] by simp
        have spall: "\<forall>x\<in>set ?sp. x = 0x20" by (auto dest: set_takeWhileD)
        then have spnd: "\<And>x. x \<in> set ?sp \<Longrightarrow> x \<noteq> 0x2E" by auto
        have tw: "\<And>ys. takeWhile (\<lambda>c. c \<noteq> 0x2E) (?sp @ ys) = ?sp @ takeWhile (\<lambda>c. c \<noteq> 0x2E) ys"
          by (rule takeWhile_append2) (rule spnd)
        have c'nd: "c' \<noteq> 0x2E"
        proof
          assume e: "c' = 0x2E"
          have "?np = takeWhile (\<lambda>c. c \<noteq> 0x2E) (?sp @ c' # r')" using rsplit by simp
          also have "\<dots> = ?sp" using e by (simp add: tw)
          finally have "?np = ?sp" .
          moreover have "last ?sp \<in> set ?sp" using npne \<open>?np = ?sp\<close> by (metis last_in_set)
          ultimately show False using lastnp spall by metis
        qed
        have npsplit: "?np = ?sp @ c' # takeWhile (\<lambda>c. c \<noteq> 0x2E) r'"
        proof -
          have "?np = takeWhile (\<lambda>c. c \<noteq> 0x2E) (?sp @ c' # r')" using rsplit by simp
          also have "\<dots> = ?sp @ takeWhile (\<lambda>c. c \<noteq> 0x2E) (c' # r')"
            by (rule tw)
          finally show ?thesis using c'nd by simp
        qed
        have filt: "filter (\<lambda>c. c \<noteq> 0x20) ?np = c' # filter (\<lambda>c. c \<noteq> 0x20) (takeWhile (\<lambda>c. c \<noteq> 0x2E) r')"
        proof -
          have "filter (\<lambda>c. c \<noteq> 0x20) ?sp = []" using spall by (simp add: filter_empty_conv)
          then show ?thesis using c'sp by (subst npsplit) simp
        qed
        have r'0: "0 \<notin> set r'" proof -
          have "set r' \<subseteq> set r"
          proof
            fix x assume "x \<in> set r'"
            then have "x \<in> set (dropWhile (\<lambda>c. c = 0x20) r)" using dw by simp
            then show "x \<in> set r" by (rule set_dropWhileD)
          qed
          then show ?thesis using "1.prems"(1) by blast
        qed
        have last': "takeWhile (\<lambda>c. c \<noteq> 0x2E) r' = [] \<or> last (takeWhile (\<lambda>c. c \<noteq> 0x2E) r') \<noteq> 0x20"
          using lastnp npsplit by (cases "takeWhile (\<lambda>c. c \<noteq> 0x2E) r' = []") auto
        have IH: "name_loop (i + 1) r' (d[i := upchar c']) =
           Inr (i + 1 + length (take (8 - (i + 1)) (map upchar (filter (\<lambda>c. c \<noteq> 0x20) (takeWhile (\<lambda>c. c \<noteq> 0x2E) r')))),
                take (i + 1) (d[i := upchar c']) @ take (8 - (i + 1)) (map upchar (filter (\<lambda>c. c \<noteq> 0x20) (takeWhile (\<lambda>c. c \<noteq> 0x2E) r')))
                  @ drop (i + 1 + length (take (8 - (i + 1)) (map upchar (filter (\<lambda>c. c \<noteq> 0x20) (takeWhile (\<lambda>c. c \<noteq> 0x2E) r'))))) (d[i := upchar c']))"
          using "1.IH"[OF i8 Cons _ dw r'0] i8 nd c0 "1.prems"(3) last' by simp
        have step: "name_loop i r d = name_loop (i + 1) r' (d[i := upchar c'])"
          using i8 Cons nd c0 dw by (subst name_loop.simps) simp
        have tk: "take (8 - i) (map upchar (filter (\<lambda>c. c \<noteq> 0x20) ?np))
                   = upchar c' # take (8 - (i + 1)) (map upchar (filter (\<lambda>c. c \<noteq> 0x20) (takeWhile (\<lambda>c. c \<noteq> 0x2E) r')))"
          using i8 by (simp add: filt take_Cons')
        have il: "i < length d" using i8 "1.prems"(3) by simp
        show ?thesis
          unfolding step IH tk using il by (simp add: take_upd_Suc)
      qed
    qed
  qed
qed


lemma ext_loop_words:
  assumes "0 \<notin> set e" "j \<le> 3" "length d = 11"
  shows "ext_loop j e d =
           take (8 + j) d @ take (3 - j) (map upchar (takeWhile (\<lambda>c. c \<noteq> 0x2E \<and> c \<noteq> 0x20) e))
             @ drop (8 + j + length (take (3 - j) (map upchar (takeWhile (\<lambda>c. c \<noteq> 0x2E \<and> c \<noteq> 0x20) e)))) d"
  using assms
proof (induction e arbitrary: j d)
  case Nil
  then show ?case by simp
next
  case (Cons c cs)
  show ?case
  proof (cases "j < 3")
    case False
    with Cons.prems show ?thesis by simp
  next
    case j3: True
    show ?thesis
    proof (cases "c = 0x2E \<or> c = 0x20")
      case True
      with j3 show ?thesis by auto
    next
      case False
      moreover from Cons.prems have "c \<noteq> 0" by auto
      moreover have "ext_loop (j + 1) cs (d[8 + j := upchar c]) =
           take (8 + (j + 1)) (d[8 + j := upchar c]) @ take (3 - (j + 1)) (map upchar (takeWhile (\<lambda>c. c \<noteq> 0x2E \<and> c \<noteq> 0x20) cs))
             @ drop (8 + (j + 1) + length (take (3 - (j + 1)) (map upchar (takeWhile (\<lambda>c. c \<noteq> 0x2E \<and> c \<noteq> 0x20) cs)))) (d[8 + j := upchar c])"
        using Cons.prems j3 by (intro Cons.IH) auto
      moreover have "take (9 + j) (d[8 + j := upchar c]) = take (8 + j) d @ [upchar c]"
        using take_upd_Suc[of "8 + j" d "upchar c"] j3 Cons.prems by simp
      ultimately show ?thesis using j3
        by (simp add: take_Cons' add.assoc)
    qed
  qed
qed

lemma dropWhile_drop_within:
  "m \<le> length (takeWhile P xs) \<Longrightarrow> dropWhile P (drop m xs) = dropWhile P xs"
proof (induction xs arbitrary: m)
  case Nil
  then show ?case by simp
next
  case (Cons x xs)
  then show ?case by (cases m) (auto split: if_splits)
qed

lemma cstr_id: "0 \<notin> set s \<Longrightarrow> cstr s = s"
  by (simp add: cstr_def takeWhile_eq_all_conv) metis

lemma lead_dots_le: "lead_dots s \<le> 8"
  by (simp add: lead_dots_def)

lemma length_fcb_name_part: "length (fcb_name_part s) \<le> 8"
  using lead_dots_le[of s] by (simp add: fcb_name_part_def Let_def)

lemma length_fcb_ext_of: "length (fcb_ext_of e) \<le> 3"
  by (simp add: fcb_ext_of_def)

lemma length_fcb_block: "length nm \<le> 8 \<Longrightarrow> length ext \<le> 3 \<Longrightarrow> length (fcb_block nm ext) = 11"
  by (simp add: fcb_block_def)

lemma pad_take8:
  "length nm = n \<Longrightarrow> n \<le> 8 \<Longrightarrow> take 8 (nm @ replicate (11 - n) x) = nm @ replicate (8 - n) x"
  by (simp add: min_def)

lemma pad_drop8:
  "length nm = n \<Longrightarrow> n \<le> 8 \<Longrightarrow> l \<le> 3
     \<Longrightarrow> drop (8 + l) (nm @ replicate (11 - n) x) = replicate (3 - l) x"
  by simp

text \<open>
  C6 (as amended).  For every file name without a NUL byte whose name part (the bytes
  between the leading dots and the first dot or the end) does not end in a space,
  \<^verbatim>\<open>filename2fcb\<close> produces the 11-byte block described in words: spaces, over which are
  written the leading dots (at most 8), then up to 8 bytes of the name part without its
  spaces and in upper case, and from byte 8 on up to 3 upper-cased extension bytes, which
  are the bytes behind the FIRST dot that follows the leading dots (up to the next dot,
  space or end).
\<close>

theorem filename2fcb_first_dot:
  assumes nz: "0 \<notin> set s"
    and sp: "takeWhile (\<lambda>c. c \<noteq> 0x2E) (drop (lead_dots s) s) = []
             \<or> last (takeWhile (\<lambda>c. c \<noteq> 0x2E) (drop (lead_dots s) s)) \<noteq> 0x20"
  shows "filename2fcb s = Inr (fcb_ext_first s) \<and> length (fcb_ext_first s) = 11"
proof -
  let ?k = "lead_dots s"
  let ?r = "drop ?k s"
  let ?np = "takeWhile (\<lambda>c. c \<noteq> 0x2E) ?r"
  let ?nm = "take (8 - ?k) (map upchar (filter (\<lambda>c. c \<noteq> 0x20) ?np))"
  let ?d0 = "replicate ?k 0x2E @ replicate (11 - ?k) (0x20 :: byte)"
  let ?m = "length ?nm"
  have k8: "?k \<le> 8" by (rule lead_dots_le)
  have r0: "0 \<notin> set ?r" using nz by (meson in_set_dropD)
  have d0len: "length ?d0 = 11" using k8 by simp
  have m_le: "?m \<le> 8 - ?k" by simp
  have m_np: "?m \<le> length ?np"
    by (simp add: min.coboundedI1)
  have nl: "name_loop ?k ?r ?d0 = Inr (?k + ?m, take ?k ?d0 @ ?nm @ drop (?k + ?m) ?d0)"
    using name_loop_words[OF r0 k8 d0len sp] by simp
  have dform: "take ?k ?d0 @ ?nm @ drop (?k + ?m) ?d0
                 = fcb_name_part s @ replicate (11 - (?k + ?m)) 0x20"
    using k8 m_le by (simp add: fcb_name_part_def Let_def)
  have nplen: "length (fcb_name_part s) = ?k + ?m"
    by (simp add: fcb_name_part_def Let_def)
  have dw: "dropWhile (\<lambda>c. c \<noteq> 0x2E) (drop (?k + ?m) s) = dropWhile (\<lambda>c. c \<noteq> 0x2E) ?r"
  proof -
    have "drop (?k + ?m) s = drop ?m ?r" by (simp add: add.commute)
    then show ?thesis using dropWhile_drop_within[OF m_np] by simp
  qed
  have len: "length (fcb_ext_first s) = 11"
    unfolding fcb_ext_first_def
    by (rule length_fcb_block[OF length_fcb_name_part length_fcb_ext_of])
  have km8: "?k + ?m \<le> 8" using k8 m_le by linarith
  have f2: "filename2fcb s =
      (case dropWhile (\<lambda>c. c \<noteq> 0x2E) ?r of
         [] \<Rightarrow> Inr (fcb_name_part s @ replicate (11 - (?k + ?m)) 0x20)
       | dot # e \<Rightarrow> Inr (ext_loop 0 e (fcb_name_part s @ replicate (11 - (?k + ?m)) 0x20)))"
    unfolding filename2fcb_def cstr_id[OF nz] Let_def nl dform by (simp only: sum.case prod.case dw)
  have eq: "filename2fcb s = Inr (fcb_ext_first s)"
  proof (cases "dropWhile (\<lambda>c. c \<noteq> 0x2E) ?r")
    case Nil
    have ex: "fcb_ext_of (drop 1 (dropWhile (\<lambda>c. c \<noteq> 0x2E) ?r)) = []"
      unfolding Nil by (simp add: fcb_ext_of_def)
    have "replicate (8 - (?k + ?m)) (0x20 :: byte) @ replicate 3 0x20
            = replicate (11 - (?k + ?m)) 0x20"
      using km8 by (simp add: replicate_add[symmetric] del: replicate_add)
    then have "fcb_ext_first s = fcb_name_part s @ replicate (11 - (?k + ?m)) 0x20"
      unfolding fcb_ext_first_def ex fcb_block_def nplen by simp
    then show ?thesis
      unfolding f2 Nil by simp
  next
    case (Cons c e)
    let ?d = "fcb_name_part s @ replicate (11 - (?k + ?m)) (0x20 :: byte)"
    let ?x = "fcb_ext_of e"
    have e0: "0 \<notin> set e"
    proof -
      have "set (dropWhile (\<lambda>c. c \<noteq> 0x2E) ?r) \<subseteq> set ?r" by (auto dest: set_dropWhileD)
      then show ?thesis using r0 Cons by auto
    qed
    have dlen: "length ?d = 11" using km8 nplen by simp
    have el: "ext_loop 0 e ?d = take 8 ?d @ ?x @ drop (8 + length ?x) ?d"
      using ext_loop_words[OF e0 _ dlen, of 0] by (simp add: fcb_ext_of_def)
    have t8: "take 8 ?d = fcb_name_part s @ replicate (8 - (?k + ?m)) 0x20"
      by (rule pad_take8[OF nplen km8])
    have d8: "drop (8 + length ?x) ?d = replicate (3 - length ?x) 0x20"
      by (rule pad_drop8[OF nplen km8 length_fcb_ext_of])
    have "fcb_ext_first s = take 8 ?d @ ?x @ drop (8 + length ?x) ?d"
      unfolding t8 d8 using Cons nplen by (simp add: fcb_ext_first_def fcb_block_def)
    then show ?thesis
      unfolding f2 Cons using el by simp
  qed
  from eq len show ?thesis by simp
qed

theorem filename2fcb_first_dot_witness:
  "filename2fcb (str ''hello world.tar.gz'') = Inr (fcb_ext_first (str ''hello world.tar.gz''))
   \<and> length (fcb_ext_first (str ''hello world.tar.gz'')) = 11
   \<and> fcb_ext_first (str ''hello world.tar.gz'') = str ''HELLOWORTAR''"
proof -
  have a: "0 \<notin> set (str ''hello world.tar.gz'')" by code_simp
  have b: "takeWhile (\<lambda>c. c \<noteq> 0x2E) (drop (lead_dots (str ''hello world.tar.gz'')) (str ''hello world.tar.gz'')) = []
             \<or> last (takeWhile (\<lambda>c. c \<noteq> 0x2E) (drop (lead_dots (str ''hello world.tar.gz'')) (str ''hello world.tar.gz''))) \<noteq> 0x20"
    by code_simp
  have c: "fcb_ext_first (str ''hello world.tar.gz'') = str ''HELLOWORTAR''" by code_simp
  from filename2fcb_first_dot[OF a b] c show ?thesis by simp
qed

text \<open>
  C6 as stated fails on names with more than one dot: for \<^verbatim>\<open>a.b.c\<close> the code takes the
  extension \<^verbatim>\<open>B\<close> behind the first dot, whereas the extension behind the last dot would
  be \<^verbatim>\<open>C\<close>.
\<close>

theorem filename2fcb_last_dot_counterexample:
  "filename2fcb (str ''a.b.c'') = Inr (str ''A       B  '')
   \<and> fcb_ext_last (str ''a.b.c'') = str ''A       C  ''
   \<and> filename2fcb (str ''a.b.c'') \<noteq> Inr (fcb_ext_last (str ''a.b.c''))"
  by code_simp

section \<open>Words on the wire\<close>

lemma recombine16: "ucast (ucast v :: 8 word) OR push_bit 8 (ucast (ucast (drop_bit 8 v) :: 8 word)) = (v :: 16 word)"
  by (rule bit_word_eqI) (auto simp: bit_simps)

lemma recombine32:
  "ucast (ucast v :: 8 word) OR push_bit 8 (ucast (ucast (drop_bit 8 v) :: 8 word))
     OR push_bit 16 (ucast (ucast (drop_bit 16 v) :: 8 word))
     OR push_bit 24 (ucast (ucast (drop_bit 24 v) :: 8 word)) = (v :: 32 word)"
  apply (rule bit_word_eqI)
  apply (auto simp: bit_simps)
  subgoal for n by (cases "n < 24") (auto simp: not_less)
  done

lemma le16_htole16: "le16 (xs @ htole16 v @ ys) (length xs) = v"
  by (simp add: le16_def htole16_def nth_append recombine16)

lemma le32_htole32: "le32 (xs @ htole32 v @ ys) (length xs) = v"
  by (simp add: le32_def htole32_def nth_append recombine32)

lemma cap_clusters:
  fixes t :: "64 word"
  shows "unat (ucast (drop_bit 15 (if t \<ge> 2147483647 then 2147483647 else t)) :: 16 word)
           = min (unat t) (2 ^ 31 - 1) div 2 ^ 15"
proof -
  let ?x = "if t \<ge> 2147483647 then 2147483647 else t"
  have x: "unat ?x = min (unat t) 2147483647"
    by (auto simp: word_le_nat_alt min_def)
  have "unat (drop_bit 15 ?x) = unat ?x div 2 ^ 15"
    by (simp add: drop_bit_eq_div unat_div)
  moreover have "unat ?x div 2 ^ 15 < 2 ^ 16" using x by (simp add: min_def split: if_splits)
  ultimately show ?thesis
    using x by (simp add: unsigned_ucast_eq take_bit_eq_mod drop_bit_eq_div unat_div)
qed

section \<open>From \<^verbatim>\<open>process\<close> to the handlers\<close>

lemma length_reply_header:
  "length answ = 1520 \<Longrightarrow> 60 \<le> length reqbuff \<Longrightarrow> length mymac = 6
     \<Longrightarrow> length (reply_header answ reqbuff mymac) = 1520"
  by (simp add: reply_header_def Let_def)

lemma length_set_ax: "60 \<le> length a \<Longrightarrow> length (set_ax a v) = length a"
  by (simp add: set_ax_def htole16_def)

lemma answer_frame:
  assumes "length H = 1520"
  shows "take 60 (set_ax (set_ax H 0) ax) @ data @ drop (60 + length data) (set_ax H 0)
           = take 58 H @ htole16 ax @ data @ drop (60 + length data) H"
  using assms by (simp add: set_ax_def htole16_def add.commute)

text \<open>The request reaches the chain of queries.\<close>

lemma process_dispatched:
  assumes "60 \<le> reqbufflen" "length reqbuff = 2048" "length (frame answer) = 1520"
    "length mymac = 6" "\<not> cache_hit answer reqbuff"
    and "unat (reqbuff ! 58 AND 31) = drv" "2 \<le> drv" "drv \<le> 25" "rootarray drv = Some root"
  shows "process E mymac rootarray drivesfat answer db w reqbuff reqbufflen =
     (case dispatch E w db root (drivesfat drv) (reqbuff ! 59) (drop 60 reqbuff) (reqbufflen - 60) of
        Inl f \<Rightarrow> Inl f
      | Inr (Ignore r db' w') \<Rightarrow>
          Inr \<lparr>p_ret = r,
               p_answer = answer\<lparr>frame := set_ax (reply_header (frame answer) reqbuff mymac) 0\<rparr>,
               p_fsdb = db', p_world = w'\<rparr>
      | Inr (Answer ax data db' w') \<Rightarrow>
          if 60 + length data > 1520 then Inl (BufferOverflow (60 + length data))
          else Inr \<lparr>p_ret = 60 + int (length data),
                    p_answer = answer\<lparr>frame :=
                      take 58 (reply_header (frame answer) reqbuff mymac) @ htole16 ax @ data
                        @ drop (60 + length data) (reply_header (frame answer) reqbuff mymac)\<rparr>,
                    p_fsdb = db', p_world = w'\<rparr>)"
proof -
  have H: "length (reply_header (frame answer) reqbuff mymac) = 1520"
    using assms by (simp add: length_reply_header)
  show ?thesis
    using assms(1,5,6,7,8,9)
    by (auto simp: process_def Let_def answer_frame[OF H] split: sum.splits outcome.splits)
qed

section \<open>DISKSPACE\<close>

text \<open>
  C7.  A DISKSPACE request (query 0x0C) for a mapped drive that is not answered from the
  cache gets a reply of 66 bytes: AX = 1 in bytes 58 and 59, then BX, CX = 32768 and DX as
  little-endian words.  BX and DX are the total and free byte counts of \<^verbatim>\<open>diskinfo\<close>,
  capped at 2^31 - 1 and divided by 2^15; a count of 2 GiB or more gives 65535.
\<close>

theorem diskspace_reply:
  fixes total free :: "64 word"
  assumes "60 \<le> reqbufflen" "length reqbuff = 2048" "length (frame answer) = 1520"
    "length mymac = 6" "\<not> cache_hit answer reqbuff"
    and "unat (reqbuff ! 58 AND 31) = drv" "2 \<le> drv" "drv \<le> 25" "rootarray drv = Some root"
    and "reqbuff ! 59 = 0x0C"
    and "diskinfo E w root 0 = (total, free)"
  shows "\<exists>bx dx.
     process E mymac rootarray drivesfat answer db w reqbuff reqbufflen =
       Inr \<lparr>p_ret = 66,
            p_answer = answer\<lparr>frame :=
              take 58 (reply_header (frame answer) reqbuff mymac) @ htole16 1
                @ (htole16 bx @ htole16 32768 @ htole16 dx)
                @ drop 66 (reply_header (frame answer) reqbuff mymac)\<rparr>,
            p_fsdb = db, p_world = w\<rparr>
     \<and> unat bx = min (unat total) (2 ^ 31 - 1) div 2 ^ 15
     \<and> unat dx = min (unat free) (2 ^ 31 - 1) div 2 ^ 15
     \<and> (2 ^ 31 \<le> unat total \<longrightarrow> bx = 65535)
     \<and> (2 ^ 31 \<le> unat free \<longrightarrow> dx = 65535)"
proof -
  let ?bx = "ucast (drop_bit 15 (if total \<ge> 2147483647 then 2147483647 else total)) :: 16 word"
  let ?dx = "ucast (drop_bit 15 (if free \<ge> 2147483647 then 2147483647 else free)) :: 16 word"
  have d: "dispatch E w db root (drivesfat drv) (reqbuff ! 59) (drop 60 reqbuff) (reqbufflen - 60)
             = Inr (Answer 1 (htole16 ?bx @ htole16 32768 @ htole16 ?dx) db w)"
    using assms(10,11) by (simp add: dispatch_def query_diskspace_def Let_def)
  have p: "process E mymac rootarray drivesfat answer db w reqbuff reqbufflen =
       Inr \<lparr>p_ret = 66,
            p_answer = answer\<lparr>frame :=
              take 58 (reply_header (frame answer) reqbuff mymac) @ htole16 1
                @ (htole16 ?bx @ htole16 32768 @ htole16 ?dx)
                @ drop 66 (reply_header (frame answer) reqbuff mymac)\<rparr>,
            p_fsdb = db, p_world = w\<rparr>"
    unfolding process_dispatched[where rootarray = rootarray and drv = drv and root = root,
        OF assms(1-9)] d
    by (simp add: htole16_def)
  have b: "unat ?bx = min (unat total) (2 ^ 31 - 1) div 2 ^ 15" by (rule cap_clusters)
  have x: "unat ?dx = min (unat free) (2 ^ 31 - 1) div 2 ^ 15" by (rule cap_clusters)
  have b': "2 ^ 31 \<le> unat total \<longrightarrow> ?bx = 65535"
    using b by (auto simp: word_eq_iff_unsigned[where ?'a = nat] simp del: unsigned_ucast_eq)
  have x': "2 ^ 31 \<le> unat free \<longrightarrow> ?dx = 65535"
    using x by (auto simp: word_eq_iff_unsigned[where ?'a = nat])
  from p b x b' x' show ?thesis by blast
qed


text \<open>The header of the replies to the concrete requests used below.\<close>

lemma demo_header:
  "take 58 (reply_header (frame empty_answer) (in_buffer (request 2 7 2 al payload)) (cfg_mymac demo_cfg))
     = [2, 0, 0, 0, 0, 9, 2, 0, 0, 0, 0, 1, 0xED, 0xF5] @ replicate 38 0 @ [0, 0, 0, 0, 2, 7]"
  by (simp add: reply_header_def in_buffer_def recv_def request_def demo_cfg_def Let_def)

theorem diskspace_reply_witness:
  "reply_bytes (demo_process demo_host (request 2 7 2 0x0C [])) =
     Inr (66, [2, 0, 0, 0, 0, 9, 2, 0, 0, 0, 0, 1, 0xED, 0xF5] @ replicate 38 0
                @ [0, 0, 0, 0, 2, 7] @ [1, 0] @ [0xFF, 0xFF, 0x00, 0x80, 0xFF, 0xFF])"
proof -
  let ?req = "in_buffer (request 2 7 2 0x0C [])"
  have h1: "60 \<le> int (length (request 2 7 2 0x0C []))" by code_simp
  have h2: "length ?req = 2048" by code_simp
  have h3: "length (frame empty_answer) = 1520" by code_simp
  have h4: "length (cfg_mymac demo_cfg) = 6" by code_simp
  have h5: "\<not> cache_hit empty_answer ?req" by code_simp
  have h6: "unat (?req ! 58 AND 31) = 2" by code_simp
  have h7: "cfg_root demo_cfg 2 = Some (str ''/srv'')" by code_simp
  have h8: "?req ! 59 = 0x0C" by code_simp
  have h9: "diskinfo demo_env demo_host (str ''/srv'') 0 = (10737418240, 4294967296)"
    by (simp add: diskinfo_def demo_env_def)
  have big: "(2::nat) ^ 31 \<le> unat (10737418240 :: 64 word)" "(2::nat) ^ 31 \<le> unat (4294967296 :: 64 word)"
    by simp_all
  from diskspace_reply[where rootarray = "cfg_root demo_cfg" and drv = 2 and root = "str ''/srv''"
      and E = demo_env and w = demo_host and drivesfat = "cfg_drivesfat demo_cfg" and db = demo_fsdb,
      OF h1 h2 h3 h4 h5 h6 _ _ h7 h8 h9] big
  have "process demo_env (cfg_mymac demo_cfg) (cfg_root demo_cfg) (cfg_drivesfat demo_cfg)
          empty_answer demo_fsdb demo_host ?req (int (length (request 2 7 2 0x0C []))) =
       Inr \<lparr>p_ret = 66,
            p_answer = empty_answer\<lparr>frame :=
              take 58 (reply_header (frame empty_answer) ?req (cfg_mymac demo_cfg)) @ htole16 1
                @ (htole16 65535 @ htole16 32768 @ htole16 65535)
                @ drop 66 (reply_header (frame empty_answer) ?req (cfg_mymac demo_cfg))\<rparr>,
            p_fsdb = demo_fsdb, p_world = demo_host\<rparr>"
    by auto
  then show ?thesis
    by (simp add: reply_bytes_def demo_process_def demo_header htole16_def)
qed

lemma reply_bytes_Inr:
  "x = Inr r \<Longrightarrow> reply_bytes x = Inr (p_ret r, take (nat (p_ret r)) (frame (p_answer r)))"
  by (simp add: reply_bytes_def)

section \<open>WRITEFIL with an empty payload\<close>

text \<open>
  C10.  A WRITEFIL request (query 0x09) that carries no bytes behind the offset and the
  file id, for a file id whose slot holds a name, gets a reply of 62 bytes with AX = 0
  and a written count of 0.  The reply is the same for every host: the result of
  \<^verbatim>\<open>truncate\<close> does not reach it.
\<close>

theorem writefil_truncate_reply:
  assumes "length reqbuff = 2048" "length (frame answer) = 1520"
    "length mymac = 6" "\<not> cache_hit answer reqbuff"
    and "unat (reqbuff ! 58 AND 31) = drv" "2 \<le> drv" "drv \<le> 25" "rootarray drv = Some root"
    and "reqbuff ! 59 = 0x09"
    and "name (db (unat (le16 (drop 60 reqbuff) 4))) = Some fname"
  shows "process E mymac rootarray drivesfat answer db w reqbuff 66 =
       Inr \<lparr>p_ret = 62,
            p_answer = answer\<lparr>frame :=
              take 58 (reply_header (frame answer) reqbuff mymac) @ htole16 0 @ htole16 0
                @ drop 62 (reply_header (frame answer) reqbuff mymac)\<rparr>,
            p_fsdb = db,
            p_world = snd (c_truncate E w fname (unat (le32 (drop 60 reqbuff) 0)))\<rparr>"
proof -
  have d: "dispatch E w db root (drivesfat drv) (reqbuff ! 59) (drop 60 reqbuff) (66 - 60)
             = Inr (Answer 0 (htole16 0) db
                      (snd (c_truncate E w fname (unat (le32 (drop 60 reqbuff) 0)))))"
    using assms(9,10) by (simp add: dispatch_def query_writefil_def writefile_def Let_def)
  have le: "60 \<le> (66::int)" by simp
  show ?thesis
    unfolding process_dispatched[where rootarray = rootarray and drv = drv and root = root,
        OF le assms(1-8)] d
    by (simp add: htole16_def)
qed

theorem writefil_truncate_reply_witness:
  "reply_bytes (demo_process demo_host (request 2 7 2 0x09 ([5, 0, 0, 0] @ [3, 0]))) =
     Inr (62, [2, 0, 0, 0, 0, 9, 2, 0, 0, 0, 0, 1, 0xED, 0xF5] @ replicate 38 0
                @ [0, 0, 0, 0, 2, 7] @ [0, 0] @ [0, 0])
   \<and> c_truncate demo_env demo_host (str ''/srv/TMP/A.TMP'') 5 = (- 1, demo_host)"
proof -
  let ?req = "in_buffer (request 2 7 2 0x09 ([5, 0, 0, 0] @ [3, 0]))"
  have h2: "length ?req = 2048" by code_simp
  have h3: "length (frame empty_answer) = 1520" by code_simp
  have h4: "length (cfg_mymac demo_cfg) = 6" by code_simp
  have h5: "\<not> cache_hit empty_answer ?req" by code_simp
  have h6: "unat (?req ! 58 AND 31) = 2" by code_simp
  have h7: "cfg_root demo_cfg 2 = Some (str ''/srv'')" by code_simp
  have h8: "?req ! 59 = 0x09" by code_simp
  have h9: "name (demo_fsdb (unat (le16 (drop 60 ?req) 4))) = Some (str ''/srv/TMP/A.TMP'')"
    by code_simp
  have n: "int (length (request 2 7 2 0x09 ([5, 0, 0, 0] @ [3, 0]))) = 66" by code_simp
  have t: "c_truncate demo_env demo_host (str ''/srv/TMP/A.TMP'') 5 = (- 1, demo_host)"
    by (simp add: demo_env_def)
  note P = writefil_truncate_reply[where rootarray = "cfg_root demo_cfg" and drv = 2
      and root = "str ''/srv''" and E = demo_env and w = demo_host
      and drivesfat = "cfg_drivesfat demo_cfg" and db = demo_fsdb,
      OF h2 h3 h4 h5 h6 _ _ h7 h8 h9]
  have "demo_process demo_host (request 2 7 2 0x09 ([5, 0, 0, 0] @ [3, 0])) = Inr \<lparr>p_ret = 62,
            p_answer = empty_answer\<lparr>frame :=
              take 58 (reply_header (frame empty_answer) ?req (cfg_mymac demo_cfg)) @ htole16 0
                @ htole16 0 @ drop 62 (reply_header (frame empty_answer) ?req (cfg_mymac demo_cfg))\<rparr>,
            p_fsdb = demo_fsdb,
            p_world = snd (c_truncate demo_env demo_host (str ''/srv/TMP/A.TMP'')
                             (unat (le32 (drop 60 ?req) 0)))\<rparr>"
    unfolding demo_process_def n by (rule P) simp_all
  from reply_bytes_Inr[OF this]
  have "reply_bytes (demo_process demo_host (request 2 7 2 0x09 ([5, 0, 0, 0] @ [3, 0]))) =
     Inr (62, [2, 0, 0, 0, 0, 9, 2, 0, 0, 0, 0, 1, 0xED, 0xF5] @ replicate 38 0
                @ [0, 0, 0, 0, 2, 7] @ [0, 0] @ [0, 0])"
    by (simp add: demo_header htole16_def)
  with t show ?thesis by simp
qed


section \<open>SKFMEND\<close>

lemma sint_word_of_int_32:
  "- (2 ^ 31) \<le> k \<Longrightarrow> k < 2 ^ 31 \<Longrightarrow> sint (word_of_int k :: 32 word) = k"
  by (simp add: sint_sbintrunc' signed_take_bit_int_eq_self)

lemma uint_of_nonneg_sint:
  fixes v :: "32 word"
  shows "0 \<le> sint v \<Longrightarrow> uint v = sint v"
  using sint_less[of v] by (simp add: uint_sint take_bit_int_eq_self)

text \<open>The arithmetic of the handler: the positive offset is dropped, the size is added
  in 32 bits, and a negative sum becomes 0.\<close>

lemma skfmend_clamp:
  fixes offs :: "32 word"
  assumes "0 \<le> sz" "sz < 2 ^ 31"
  shows "uint (let o1 = (if 0 <s offs then 0 else offs);
                   o2 = (word_of_int (sint o1 + sz) :: 32 word)
               in if o2 <s 0 then 0 else o2)
           = max 0 (sz + min 0 (sint offs))"
proof -
  let ?o1 = "if 0 <s offs then 0 else offs"
  have o1: "sint ?o1 = min 0 (sint offs)" by (auto simp: word_sless_alt min_def)
  have lo: "- (2 ^ 31) \<le> sint ?o1" using sint_greater_eq[of ?o1] by simp
  have hi: "sint ?o1 \<le> 0" using o1 by simp
  have o2: "sint (word_of_int (sint ?o1 + sz) :: 32 word) = sint ?o1 + sz"
    using lo hi assms by (intro sint_word_of_int_32) linarith+
  show ?thesis
    using o2 o1 uint_of_nonneg_sint[of "word_of_int (sint ?o1 + sz)"]
    by (auto simp: Let_def word_sless_alt max_def simp del: of_int_add)
qed

lemma getfopsize_stale: "name (db (unat fss)) = None \<Longrightarrow> getfopsize E w db fss = Inr (- 1)"
  by (simp add: getfopsize_def)

text \<open>
  C8 (as amended).  A SKFMEND request (query 0x21, payload of 6 bytes) for a file whose
  size \<^verbatim>\<open>getfopsize\<close> reports as less than 2^31 gets a reply of 64 bytes with AX = 0 and
  the absolute offset max 0 (size + min 0 offset), the offset read as a signed 32-bit
  number.  When \<^verbatim>\<open>getfopsize\<close> reports -1, which it does for an empty handle slot, the
  reply has 60 bytes and AX = 2.
\<close>

theorem skfmend_reply:
  assumes "length reqbuff = 2048" "length (frame answer) = 1520"
    "length mymac = 6" "\<not> cache_hit answer reqbuff"
    and "unat (reqbuff ! 58 AND 31) = drv" "2 \<le> drv" "drv \<le> 25" "rootarray drv = Some root"
    and "reqbuff ! 59 = 0x21"
  shows "(\<forall>sz. getfopsize E w db (le16 (drop 60 reqbuff) 4) = Inr sz \<and> 0 \<le> sz \<and> sz < 2 ^ 31 \<longrightarrow>
            (\<exists>v. process E mymac rootarray drivesfat answer db w reqbuff 66 =
                   Inr \<lparr>p_ret = 64,
                        p_answer = answer\<lparr>frame :=
                          take 58 (reply_header (frame answer) reqbuff mymac) @ htole16 0
                            @ htole32 v @ drop 64 (reply_header (frame answer) reqbuff mymac)\<rparr>,
                        p_fsdb = db, p_world = w\<rparr>
                \<and> uint v = max 0 (sz + min 0 (sint (le32 (drop 60 reqbuff) 0)))))
       \<and> (\<forall>sz. getfopsize E w db (le16 (drop 60 reqbuff) 4) = Inr sz \<and> sz < 0 \<longrightarrow>
            process E mymac rootarray drivesfat answer db w reqbuff 66 =
              Inr \<lparr>p_ret = 60,
                   p_answer = answer\<lparr>frame :=
                     take 58 (reply_header (frame answer) reqbuff mymac) @ htole16 2
                       @ drop 60 (reply_header (frame answer) reqbuff mymac)\<rparr>,
                   p_fsdb = db, p_world = w\<rparr>)
       \<and> (name (db (unat (le16 (drop 60 reqbuff) 4))) = None \<longrightarrow>
            getfopsize E w db (le16 (drop 60 reqbuff) 4) = Inr (- 1))"
proof -
  let ?p = "drop 60 reqbuff"
  have le: "60 \<le> (66::int)" by simp
  note pd = process_dispatched[where rootarray = rootarray and drv = drv and root = root,
        OF le assms(1-8)]
  have d: "dispatch E w db root (drivesfat drv) (reqbuff ! 59) ?p (66 - 60) = query_skfmend E w db ?p"
    using assms(9) by (simp add: dispatch_def)
  have a: "\<exists>v. process E mymac rootarray drivesfat answer db w reqbuff 66 =
                   Inr \<lparr>p_ret = 64,
                        p_answer = answer\<lparr>frame :=
                          take 58 (reply_header (frame answer) reqbuff mymac) @ htole16 0
                            @ htole32 v @ drop 64 (reply_header (frame answer) reqbuff mymac)\<rparr>,
                        p_fsdb = db, p_world = w\<rparr>
                \<and> uint v = max 0 (sz + min 0 (sint (le32 ?p 0)))"
    if "getfopsize E w db (le16 ?p 4) = Inr sz" "0 \<le> sz" "sz < 2 ^ 31" for sz
  proof -
    let ?v = "let o1 = (if 0 <s le32 ?p 0 then 0 else le32 ?p 0);
                  o2 = (word_of_int (sint o1 + sz) :: 32 word)
              in if o2 <s 0 then 0 else o2"
    have q: "query_skfmend E w db ?p = Inr (Answer 0 (htole32 ?v) db w)"
      using that by (simp add: query_skfmend_def Let_def)
    have l4: "length (htole32 ?v) = 4" by (simp add: htole32_def)
    have p: "process E mymac rootarray drivesfat answer db w reqbuff 66 =
                   Inr \<lparr>p_ret = 64,
                        p_answer = answer\<lparr>frame :=
                          take 58 (reply_header (frame answer) reqbuff mymac) @ htole16 0
                            @ htole32 ?v @ drop 64 (reply_header (frame answer) reqbuff mymac)\<rparr>,
                        p_fsdb = db, p_world = w\<rparr>"
      unfolding pd d q by (simp only: sum.case outcome.case l4) simp
    have u: "uint ?v = max 0 (sz + min 0 (sint (le32 ?p 0)))"
      by (rule skfmend_clamp[OF that(2,3)])
    show ?thesis by (rule exI[of _ ?v]) (rule conjI[OF p u])
  qed
  have b: "process E mymac rootarray drivesfat answer db w reqbuff 66 =
              Inr \<lparr>p_ret = 60,
                   p_answer = answer\<lparr>frame :=
                     take 58 (reply_header (frame answer) reqbuff mymac) @ htole16 2
                       @ drop 60 (reply_header (frame answer) reqbuff mymac)\<rparr>,
                   p_fsdb = db, p_world = w\<rparr>"
    if "getfopsize E w db (le16 ?p 4) = Inr sz" "sz < 0" for sz
  proof -
    have q: "query_skfmend E w db ?p = Inr (Answer 2 [] db w)"
      using that by (simp add: query_skfmend_def Let_def)
    show ?thesis unfolding pd d q by (simp only: sum.case outcome.case) simp
  qed
  show ?thesis
  proof (intro conjI allI impI)
    fix sz
    assume "getfopsize E w db (le16 ?p 4) = Inr sz \<and> 0 \<le> sz \<and> sz < 2 ^ 31"
    then show "\<exists>v. process E mymac rootarray drivesfat answer db w reqbuff 66 =
                   Inr \<lparr>p_ret = 64,
                        p_answer = answer\<lparr>frame :=
                          take 58 (reply_header (frame answer) reqbuff mymac) @ htole16 0
                            @ htole32 v @ drop 64 (reply_header (frame answer) reqbuff mymac)\<rparr>,
                        p_fsdb = db, p_world = w\<rparr>
                \<and> uint v = max 0 (sz + min 0 (sint (le32 ?p 0)))"
      by (elim conjE) (rule a)
  next
    fix sz
    assume "getfopsize E w db (le16 ?p 4) = Inr sz \<and> sz < 0"
    then show "process E mymac rootarray drivesfat answer db w reqbuff 66 =
              Inr \<lparr>p_ret = 60,
                   p_answer = answer\<lparr>frame :=
                     take 58 (reply_header (frame answer) reqbuff mymac) @ htole16 2
                       @ drop 60 (reply_header (frame answer) reqbuff mymac)\<rparr>,
                   p_fsdb = db, p_world = w\<rparr>"
      by (elim conjE) (rule b)
  next
    assume "name (db (unat (le16 ?p 4))) = None"
    then show "getfopsize E w db (le16 ?p 4) = Inr (- 1)" by (rule getfopsize_stale)
  qed
qed

text \<open>Facts about the concrete host and its requests.\<close>

lemma demo_payload:
  "length payload \<le> 1988 \<Longrightarrow>
     drop 60 (in_buffer (request proto seq drv al payload))
       = payload @ replicate (1988 - length payload) 0"
  by (simp add: in_buffer_def recv_def request_def min_def)

lemma demo_request_ok:
  assumes "length payload \<le> 1988"
  shows "length (in_buffer (request 2 seq 2 al payload)) = 2048"
    and "\<not> cache_hit empty_answer (in_buffer (request 2 seq 2 al payload))"
    and "unat (in_buffer (request 2 seq 2 al payload) ! 58 AND 31) = 2"
    and "in_buffer (request 2 seq 2 al payload) ! 59 = al"
  using assms
  by (simp_all add: in_buffer_def recv_def request_def min_def cache_hit_def empty_answer_def
        nth_append)

lemma demo_config:
  "length (frame empty_answer) = 1520" "length (cfg_mymac demo_cfg) = 6"
  "cfg_root demo_cfg 2 = Some (str ''/srv'')"
  by (simp_all add: empty_answer_def demo_cfg_def)

lemma getfopsize_file:
  "name (db (unat fss)) = Some fname \<Longrightarrow> c_stat E w fname = Some sb \<Longrightarrow> \<not> st_isdir sb
     \<Longrightarrow> filename2fcb (fname_scan fname fname) = Inr fcb
     \<Longrightarrow> getfopsize E w db fss = Inr (sint (of_nat (st_size sb) :: 64 word))"
  by (simp add: getfopsize_def getitemattr_def Let_def)

lemma demo_getfopsize:
  "getfopsize demo_env demo_host demo_fsdb 3 = Inr 3"
  "getfopsize demo_env big_host demo_fsdb 1 = Inr 2147483648"
proof -
  have n3: "name (demo_fsdb (unat (3 :: 16 word))) = Some (str ''/srv/TMP/A.TMP'')"
    and n1: "name (demo_fsdb (unat (1 :: 16 word))) = Some (str ''/srv/BIG.BIN'')"
    by (simp_all add: demo_fsdb_def)
  have s3: "c_stat demo_env demo_host (str ''/srv/TMP/A.TMP'')
              = Some \<lparr>st_isdir = False, st_size = 3, st_mtime = 0\<rparr>"
    by code_simp
  have s1: "c_stat demo_env big_host (str ''/srv/BIG.BIN'')
              = Some \<lparr>st_isdir = False, st_size = 2147483648, st_mtime = 0\<rparr>"
    by (simp add: demo_env_def big_host_def str_def dot_entries_def)
  have c3: "filename2fcb (fname_scan (str ''/srv/TMP/A.TMP'') (str ''/srv/TMP/A.TMP''))
              = Inr (str ''A       TMP'')"
    by code_simp
  have c1: "filename2fcb (fname_scan (str ''/srv/BIG.BIN'') (str ''/srv/BIG.BIN''))
              = Inr (str ''BIG     BIN'')"
    by code_simp
  show "getfopsize demo_env demo_host demo_fsdb 3 = Inr 3"
    using getfopsize_file[where db = demo_fsdb, OF n3 s3 _ c3] by simp
  show "getfopsize demo_env big_host demo_fsdb 1 = Inr 2147483648"
    using getfopsize_file[where db = demo_fsdb, OF n1 s1 _ c1] by simp
qed

theorem skfmend_reply_witness:
  "reply_bytes (demo_process demo_host (request 2 7 2 0x21 [0xFE, 0xFF, 0xFF, 0xFF, 3, 0])) =
     Inr (64, [2, 0, 0, 0, 0, 9, 2, 0, 0, 0, 0, 1, 0xED, 0xF5] @ replicate 38 0
                @ [0, 0, 0, 0, 2, 7] @ [0, 0] @ [1, 0, 0, 0])
   \<and> reply_bytes (demo_process demo_host (request 2 7 2 0x21 [0xFE, 0xFF, 0xFF, 0xFF, 9, 0])) =
     Inr (60, [2, 0, 0, 0, 0, 9, 2, 0, 0, 0, 0, 1, 0xED, 0xF5] @ replicate 38 0
                @ [0, 0, 0, 0, 2, 7] @ [2, 0])"
proof -
  let ?d3 = "request 2 7 2 0x21 [0xFE, 0xFF, 0xFF, 0xFF, 3, 0]"
  let ?d9 = "request 2 7 2 0x21 [0xFE, 0xFF, 0xFF, 0xFF, 9, 0]"
  have n: "int (length ?d3) = 66" "int (length ?d9) = 66" by (simp_all add: request_def)
  have f3: "le16 (drop 60 (in_buffer ?d3)) 4 = 3" and f9: "le16 (drop 60 (in_buffer ?d9)) 4 = 9"
    by (simp_all add: demo_payload le16_def)
  have o: "sint (le32 (drop 60 (in_buffer ?d3)) 0) = - 2"
    by (simp add: demo_payload le32_def signed_take_bit_int_eq_self)
  have two: "(2::nat) \<le> 2" "(2::nat) \<le> 25" by simp_all
  have lp: "length [0xFE, 0xFF, 0xFF, 0xFF, 3, 0 :: byte] \<le> 1988"
    "length [0xFE, 0xFF, 0xFF, 0xFF, 9, 0 :: byte] \<le> 1988" by simp_all
  note ok3 = demo_request_ok[OF lp(1)] and ok9 = demo_request_ok[OF lp(2)]
  note T3 = skfmend_reply[where rootarray = "cfg_root demo_cfg" and drv = 2
      and root = "str ''/srv''" and E = demo_env and w = demo_host
      and drivesfat = "cfg_drivesfat demo_cfg" and db = demo_fsdb
      and reqbuff = "in_buffer ?d3" and mymac = "cfg_mymac demo_cfg" and answer = empty_answer,
      OF ok3(1) demo_config(1,2) ok3(2,3) two demo_config(3) ok3(4),
      unfolded f3, THEN conjunct1, THEN spec, THEN mp, of 3]
  have "\<exists>v. process demo_env (cfg_mymac demo_cfg) (cfg_root demo_cfg) (cfg_drivesfat demo_cfg)
              empty_answer demo_fsdb demo_host (in_buffer ?d3) 66 =
            Inr \<lparr>p_ret = 64,
                 p_answer = empty_answer\<lparr>frame :=
                   take 58 (reply_header (frame empty_answer) (in_buffer ?d3) (cfg_mymac demo_cfg))
                     @ htole16 0 @ htole32 v
                     @ drop 64 (reply_header (frame empty_answer) (in_buffer ?d3)
                                  (cfg_mymac demo_cfg))\<rparr>,
                 p_fsdb = demo_fsdb, p_world = demo_host\<rparr>
          \<and> uint v = max 0 (3 + min 0 (sint (le32 (drop 60 (in_buffer ?d3)) 0)))"
    by (rule T3) (simp_all add: demo_getfopsize(1))
  then obtain v :: "32 word" where
    p3: "demo_process demo_host ?d3 =
            Inr \<lparr>p_ret = 64,
                 p_answer = empty_answer\<lparr>frame :=
                   take 58 (reply_header (frame empty_answer) (in_buffer ?d3) (cfg_mymac demo_cfg))
                     @ htole16 0 @ htole32 v
                     @ drop 64 (reply_header (frame empty_answer) (in_buffer ?d3)
                                  (cfg_mymac demo_cfg))\<rparr>,
                 p_fsdb = demo_fsdb, p_world = demo_host\<rparr>"
    and "uint v = max 0 (3 + min 0 (sint (le32 (drop 60 (in_buffer ?d3)) 0)))"
    unfolding demo_process_def n by (elim exE conjE)
  then have "uint v = 1" unfolding o by simp
  then have v: "v = 1" by (metis uint_1 word_uint_eq_iff)
  have r3: "reply_bytes (demo_process demo_host ?d3) =
     Inr (64, [2, 0, 0, 0, 0, 9, 2, 0, 0, 0, 0, 1, 0xED, 0xF5] @ replicate 38 0
                @ [0, 0, 0, 0, 2, 7] @ [0, 0] @ [1, 0, 0, 0])"
    using reply_bytes_Inr[OF p3] unfolding v by (simp add: demo_header htole16_def htole32_def)
  note T9 = skfmend_reply[where rootarray = "cfg_root demo_cfg" and drv = 2
      and root = "str ''/srv''" and E = demo_env and w = demo_host
      and drivesfat = "cfg_drivesfat demo_cfg" and db = demo_fsdb
      and reqbuff = "in_buffer ?d9" and mymac = "cfg_mymac demo_cfg" and answer = empty_answer,
      OF ok9(1) demo_config(1,2) ok9(2,3) two demo_config(3) ok9(4), unfolded f9]
  have s9: "name (demo_fsdb (unat (9 :: 16 word))) = None"
    by (simp add: demo_fsdb_def)
  have g9: "getfopsize demo_env demo_host demo_fsdb 9 = Inr (- 1)"
    by (rule T9[THEN conjunct2, THEN conjunct2, THEN mp]) (rule s9)
  have p9: "demo_process demo_host ?d9 =
            Inr \<lparr>p_ret = 60,
                 p_answer = empty_answer\<lparr>frame :=
                   take 58 (reply_header (frame empty_answer) (in_buffer ?d9) (cfg_mymac demo_cfg))
                     @ htole16 2
                     @ drop 60 (reply_header (frame empty_answer) (in_buffer ?d9)
                                  (cfg_mymac demo_cfg))\<rparr>,
                 p_fsdb = demo_fsdb, p_world = demo_host\<rparr>"
    unfolding demo_process_def n
    by (rule T9[THEN conjunct2, THEN conjunct1, THEN spec, THEN mp, of "- 1"]) (simp add: g9)
  have r9: "reply_bytes (demo_process demo_host ?d9) =
     Inr (60, [2, 0, 0, 0, 0, 9, 2, 0, 0, 0, 0, 1, 0xED, 0xF5] @ replicate 38 0
                @ [0, 0, 0, 0, 2, 7] @ [2, 0])"
    using reply_bytes_Inr[OF p9] by (simp add: demo_header htole16_def)
  from r3 r9 show ?thesis by (rule conjI)
qed

text \<open>
  C8 as stated fails for files of 2 GiB and more.  The host file behind handle 1 has
  2^31 bytes; for the offset 0 the claimed result is 2^31 (bytes 00 00 00 80), but the sum
  does not fit the signed 32-bit variable, is read as negative and replaced by 0.
\<close>

theorem skfmend_large_file_counterexample:
  "getfopsize demo_env big_host demo_fsdb 1 = Inr 2147483648
   \<and> reply_bytes (demo_process big_host (request 2 7 2 0x21 [0, 0, 0, 0, 1, 0])) =
       Inr (64, [2, 0, 0, 0, 0, 9, 2, 0, 0, 0, 0, 1, 0xED, 0xF5] @ replicate 38 0
                  @ [0, 0, 0, 0, 2, 7] @ [0, 0] @ [0, 0, 0, 0])
   \<and> htole32 (word_of_int (max 0 (2147483648 + min 0 0))) = [0, 0, 0, 0x80]"
proof -
  let ?d = "request 2 7 2 0x21 [0, 0, 0, 0, 1, 0]"
  have n: "int (length ?d) = 66" by (simp add: request_def)
  have f: "le16 (drop 60 (in_buffer ?d)) 4 = 1" and o: "le32 (drop 60 (in_buffer ?d)) 0 = 0"
    by (simp_all add: demo_payload le16_def le32_def)
  have neg: "(word_of_int (sint (0 :: 32 word) + 2147483648) :: 32 word) <s 0"
    by (simp add: word_sless_alt)
  have q: "query_skfmend demo_env big_host demo_fsdb (drop 60 (in_buffer ?d))
             = Inr (Answer 0 (htole32 0) demo_fsdb big_host)"
    unfolding query_skfmend_def f o Let_def demo_getfopsize(2) using neg by simp
  have le: "60 \<le> (66::int)" and two: "(2::nat) \<le> 2" "(2::nat) \<le> 25" by simp_all
  have lp: "length [0, 0, 0, 0, 1, 0 :: byte] \<le> 1988" by simp
  note ok = demo_request_ok[OF lp]
  have d: "dispatch demo_env big_host demo_fsdb (str ''/srv'') (cfg_drivesfat demo_cfg 2)
             (in_buffer ?d ! 59) (drop 60 (in_buffer ?d)) (66 - 60)
           = query_skfmend demo_env big_host demo_fsdb (drop 60 (in_buffer ?d))"
    by (simp add: dispatch_def ok(4))
  have p: "demo_process big_host ?d =
            Inr \<lparr>p_ret = 64,
                 p_answer = empty_answer\<lparr>frame :=
                   take 58 (reply_header (frame empty_answer) (in_buffer ?d) (cfg_mymac demo_cfg))
                     @ htole16 0 @ htole32 0
                     @ drop 64 (reply_header (frame empty_answer) (in_buffer ?d)
                                  (cfg_mymac demo_cfg))\<rparr>,
                 p_fsdb = demo_fsdb, p_world = big_host\<rparr>"
    unfolding demo_process_def n
      process_dispatched[where rootarray = "cfg_root demo_cfg" and drv = 2
        and root = "str ''/srv''" and reqbuff = "in_buffer ?d" and w = big_host,
        OF le ok(1) demo_config(1,2) ok(2,3) two demo_config(3)] d q
    by (simp add: htole32_def)
  have r: "reply_bytes (demo_process big_host ?d) =
       Inr (64, [2, 0, 0, 0, 0, 9, 2, 0, 0, 0, 0, 1, 0xED, 0xF5] @ replicate 38 0
                  @ [0, 0, 0, 0, 2, 7] @ [0, 0] @ [0, 0, 0, 0])"
    using reply_bytes_Inr[OF p] by (simp add: demo_header htole16_def htole32_def)
  have c: "htole32 (word_of_int (max 0 (2147483648 + min 0 0))) = [0, 0, 0, 0x80]"
    by (simp add: htole32_def)
  from demo_getfopsize(2) r c show ?thesis by simp
qed

section \<open>The attribute filter of \<^verbatim>\<open>findfile\<close>\<close>

lemma findfile_scan_step:
  "findfile_scan E (p # ps) n nthp fcbtmpl attr flags =
     (if nthp < Suc n \<and> examined E flags fcbtmpl p \<and> attr_accepts attr (fattr p)
      then Some (Suc n, p)
      else findfile_scan E ps (Suc n) nthp fcbtmpl attr flags)"
  by (auto simp: examined_def attr_accepts_def)

text \<open>
  C5.  The loop of \<^verbatim>\<open>findfile\<close> (used by FindFirst and FindNext) stops at the first
  entry behind the cursor that passes the root-dot test and the mask test and that the
  attribute filter accepts; the filter is the one of the specification: for the
  requested attribute 0x08 the volume bit of the candidate must be set, otherwise
  (attr OR (candidate AND 0x16)) = attr must hold.  So an examined candidate is accepted
  if and only if \<open>attr_accepts\<close> holds for it.
\<close>

theorem findfile_scan_first_accepted:
  "findfile_scan E ps n nthp fcbtmpl attr flags =
     find (\<lambda>(k, p). nthp < k \<and> examined E flags fcbtmpl p \<and> attr_accepts attr (fattr p))
       (enumerate (Suc n) ps)"
proof (induction ps arbitrary: n)
  case Nil
  show ?case by simp
next
  case (Cons p ps)
  show ?case
    by (simp only: findfile_scan_step enumerate_simps find.simps prod.case Cons.IH)
qed

text \<open>A listing with a plain file, a hidden file, a directory and a volume label.\<close>

theorem findfile_scan_examples:
  "findfile_scan demo_env
     [\<lparr>fcbname = str ''A       TXT'', fsize = 0, ftime = 0, fattr = 0x20\<rparr>,
      \<lparr>fcbname = str ''B       TXT'', fsize = 0, ftime = 0, fattr = 0x02\<rparr>,
      \<lparr>fcbname = str ''C          '', fsize = 0, ftime = 0, fattr = 0x10\<rparr>,
      \<lparr>fcbname = str ''VOLUME     '', fsize = 0, ftime = 0, fattr = 0x08\<rparr>]
     0 1 (str ''???????????'') 0x10 0
   = Some (3, \<lparr>fcbname = str ''C          '', fsize = 0, ftime = 0, fattr = 0x10\<rparr>)
   \<and> findfile_scan demo_env
     [\<lparr>fcbname = str ''A       TXT'', fsize = 0, ftime = 0, fattr = 0x20\<rparr>,
      \<lparr>fcbname = str ''B       TXT'', fsize = 0, ftime = 0, fattr = 0x02\<rparr>,
      \<lparr>fcbname = str ''C          '', fsize = 0, ftime = 0, fattr = 0x10\<rparr>,
      \<lparr>fcbname = str ''VOLUME     '', fsize = 0, ftime = 0, fattr = 0x08\<rparr>]
     0 0 (str ''???????????'') 0x08 0
   = Some (4, \<lparr>fcbname = str ''VOLUME     '', fsize = 0, ftime = 0, fattr = 0x08\<rparr>)"
  unfolding findfile_scan_first_accepted by code_simp

section \<open>Stale handles\<close>

text \<open>
  C2 (as amended).  When the slot of the 16-bit file id of a request is empty, the
  dispatcher does not fault and answers with 60 bytes and a DOS error code: 5 (access
  denied) for READFIL and for WRITEFIL, 2 (file not found) for SKFMEND.  The handle table
  and the host are left as they are.
\<close>

theorem stale_file_id_reply:
  assumes "length reqbuff = 2048" "length (frame answer) = 1520"
    "length mymac = 6" "\<not> cache_hit answer reqbuff"
    and "unat (reqbuff ! 58 AND 31) = drv" "2 \<le> drv" "drv \<le> 25" "rootarray drv = Some root"
    and "name (db (unat (le16 (drop 60 reqbuff) 4))) = None"
  shows "(reqbuff ! 59 = 0x08 \<longrightarrow>
            process E mymac rootarray drivesfat answer db w reqbuff 68 =
              Inr \<lparr>p_ret = 60,
                   p_answer = answer\<lparr>frame :=
                     take 58 (reply_header (frame answer) reqbuff mymac) @ htole16 5
                       @ drop 60 (reply_header (frame answer) reqbuff mymac)\<rparr>,
                   p_fsdb = db, p_world = w\<rparr>)
       \<and> (reqbuff ! 59 = 0x09 \<and> 66 \<le> n \<longrightarrow>
            process E mymac rootarray drivesfat answer db w reqbuff n =
              Inr \<lparr>p_ret = 60,
                   p_answer = answer\<lparr>frame :=
                     take 58 (reply_header (frame answer) reqbuff mymac) @ htole16 5
                       @ drop 60 (reply_header (frame answer) reqbuff mymac)\<rparr>,
                   p_fsdb = db, p_world = w\<rparr>)
       \<and> (reqbuff ! 59 = 0x21 \<longrightarrow>
            process E mymac rootarray drivesfat answer db w reqbuff 66 =
              Inr \<lparr>p_ret = 60,
                   p_answer = answer\<lparr>frame :=
                     take 58 (reply_header (frame answer) reqbuff mymac) @ htole16 2
                       @ drop 60 (reply_header (frame answer) reqbuff mymac)\<rparr>,
                   p_fsdb = db, p_world = w\<rparr>)"
proof (intro conjI impI)
  assume al: "reqbuff ! 59 = 0x08"
  have le: "60 \<le> (68::int)" by simp
  have d: "dispatch E w db root (drivesfat drv) (reqbuff ! 59) (drop 60 reqbuff) (68 - 60)
             = Inr (Answer 5 [] db w)"
    using al assms(9) by (simp add: dispatch_def query_readfil_def readfile_def Let_def)
  show "process E mymac rootarray drivesfat answer db w reqbuff 68 =
              Inr \<lparr>p_ret = 60,
                   p_answer = answer\<lparr>frame :=
                     take 58 (reply_header (frame answer) reqbuff mymac) @ htole16 5
                       @ drop 60 (reply_header (frame answer) reqbuff mymac)\<rparr>,
                   p_fsdb = db, p_world = w\<rparr>"
    unfolding process_dispatched[where rootarray = rootarray and drv = drv and root = root,
        OF le assms(1-8)] d
    by (simp only: sum.case outcome.case) simp
next
  assume "reqbuff ! 59 = 0x09 \<and> 66 \<le> n"
  then have al: "reqbuff ! 59 = 0x09" and n: "66 \<le> n" by simp_all
  have le: "60 \<le> n" using n by simp
  have d: "dispatch E w db root (drivesfat drv) (reqbuff ! 59) (drop 60 reqbuff) (n - 60)
             = Inr (Answer 5 [] db w)"
    using al n assms(9) by (simp add: dispatch_def query_writefil_def writefile_def Let_def)
  show "process E mymac rootarray drivesfat answer db w reqbuff n =
              Inr \<lparr>p_ret = 60,
                   p_answer = answer\<lparr>frame :=
                     take 58 (reply_header (frame answer) reqbuff mymac) @ htole16 5
                       @ drop 60 (reply_header (frame answer) reqbuff mymac)\<rparr>,
                   p_fsdb = db, p_world = w\<rparr>"
    unfolding process_dispatched[where rootarray = rootarray and drv = drv and root = root,
        OF le assms(1-8)] d
    by (simp only: sum.case outcome.case) simp
next
  assume al: "reqbuff ! 59 = 0x21"
  have le: "60 \<le> (66::int)" by simp
  have d: "dispatch E w db root (drivesfat drv) (reqbuff ! 59) (drop 60 reqbuff) (66 - 60)
             = Inr (Answer 2 [] db w)"
    using al
    by (simp add: dispatch_def query_skfmend_def Let_def
          getfopsize_stale[where db = db and E = E and w = w, OF assms(9)])
  show "process E mymac rootarray drivesfat answer db w reqbuff 66 =
              Inr \<lparr>p_ret = 60,
                   p_answer = answer\<lparr>frame :=
                     take 58 (reply_header (frame answer) reqbuff mymac) @ htole16 2
                       @ drop 60 (reply_header (frame answer) reqbuff mymac)\<rparr>,
                   p_fsdb = db, p_world = w\<rparr>"
    unfolding process_dispatched[where rootarray = rootarray and drv = drv and root = root,
        OF le assms(1-8)] d
    by (simp only: sum.case outcome.case) simp
qed

theorem stale_file_id_reply_witness:
  "reply_bytes (demo_process demo_host (request 2 7 2 0x08 [0, 0, 0, 0, 9, 0, 16, 0])) =
     Inr (60, [2, 0, 0, 0, 0, 9, 2, 0, 0, 0, 0, 1, 0xED, 0xF5] @ replicate 38 0
                @ [0, 0, 0, 0, 2, 7] @ [5, 0])
   \<and> reply_bytes (demo_process demo_host (request 2 7 2 0x09 [0, 0, 0, 0, 9, 0, 0x41])) =
     Inr (60, [2, 0, 0, 0, 0, 9, 2, 0, 0, 0, 0, 1, 0xED, 0xF5] @ replicate 38 0
                @ [0, 0, 0, 0, 2, 7] @ [5, 0])
   \<and> reply_bytes (demo_process demo_host (request 2 7 2 0x21 [0, 0, 0, 0, 9, 0])) =
     Inr (60, [2, 0, 0, 0, 0, 9, 2, 0, 0, 0, 0, 1, 0xED, 0xF5] @ replicate 38 0
                @ [0, 0, 0, 0, 2, 7] @ [2, 0])"
proof -
  let ?r = "request 2 7 2 0x08 [0, 0, 0, 0, 9, 0, 16, 0]"
  let ?w = "request 2 7 2 0x09 [0, 0, 0, 0, 9, 0, 0x41]"
  let ?s = "request 2 7 2 0x21 [0, 0, 0, 0, 9, 0]"
  have two: "(2::nat) \<le> 2" "(2::nat) \<le> 25" by simp_all
  have n: "int (length ?r) = 68" "int (length ?w) = 67" "int (length ?s) = 66"
    by (simp_all add: request_def)
  have lp: "length [0, 0, 0, 0, 9, 0, 16, 0 :: byte] \<le> 1988"
    "length [0, 0, 0, 0, 9, 0, 0x41 :: byte] \<le> 1988"
    "length [0, 0, 0, 0, 9, 0 :: byte] \<le> 1988" by simp_all
  note okr = demo_request_ok[OF lp(1)] and okw = demo_request_ok[OF lp(2)]
    and oks = demo_request_ok[OF lp(3)]
  have st: "name (demo_fsdb (unat (le16 (drop 60 (in_buffer ?r)) 4))) = None"
    "name (demo_fsdb (unat (le16 (drop 60 (in_buffer ?w)) 4))) = None"
    "name (demo_fsdb (unat (le16 (drop 60 (in_buffer ?s)) 4))) = None"
    by (simp_all add: demo_payload le16_def demo_fsdb_def)
  note Tr = stale_file_id_reply[where rootarray = "cfg_root demo_cfg" and drv = 2
      and root = "str ''/srv''" and E = demo_env and w = demo_host
      and drivesfat = "cfg_drivesfat demo_cfg" and db = demo_fsdb
      and reqbuff = "in_buffer ?r" and mymac = "cfg_mymac demo_cfg" and answer = empty_answer,
      OF okr(1) demo_config(1,2) okr(2,3) two demo_config(3) st(1),
      THEN conjunct1, THEN mp, OF okr(4)]
  have pr: "demo_process demo_host ?r =
      Inr \<lparr>p_ret = 60,
           p_answer = empty_answer\<lparr>frame :=
             take 58 (reply_header (frame empty_answer) (in_buffer ?r) (cfg_mymac demo_cfg))
               @ htole16 5
               @ drop 60 (reply_header (frame empty_answer) (in_buffer ?r) (cfg_mymac demo_cfg))\<rparr>,
           p_fsdb = demo_fsdb, p_world = demo_host\<rparr>"
    unfolding demo_process_def n by (rule Tr)
  have aw: "in_buffer ?w ! 59 = 9 \<and> (66::int) \<le> 67" using okw(4) by simp
  note Tw = stale_file_id_reply[where rootarray = "cfg_root demo_cfg" and drv = 2
      and root = "str ''/srv''" and E = demo_env and w = demo_host
      and drivesfat = "cfg_drivesfat demo_cfg" and db = demo_fsdb and n = 67
      and reqbuff = "in_buffer ?w" and mymac = "cfg_mymac demo_cfg" and answer = empty_answer,
      OF okw(1) demo_config(1,2) okw(2,3) two demo_config(3) st(2),
      THEN conjunct2, THEN conjunct1, THEN mp, OF aw]
  have pw: "demo_process demo_host ?w =
      Inr \<lparr>p_ret = 60,
           p_answer = empty_answer\<lparr>frame :=
             take 58 (reply_header (frame empty_answer) (in_buffer ?w) (cfg_mymac demo_cfg))
               @ htole16 5
               @ drop 60 (reply_header (frame empty_answer) (in_buffer ?w) (cfg_mymac demo_cfg))\<rparr>,
           p_fsdb = demo_fsdb, p_world = demo_host\<rparr>"
    unfolding demo_process_def n by (rule Tw)
  note Ts = stale_file_id_reply[where rootarray = "cfg_root demo_cfg" and drv = 2
      and root = "str ''/srv''" and E = demo_env and w = demo_host
      and drivesfat = "cfg_drivesfat demo_cfg" and db = demo_fsdb
      and reqbuff = "in_buffer ?s" and mymac = "cfg_mymac demo_cfg" and answer = empty_answer,
      OF oks(1) demo_config(1,2) oks(2,3) two demo_config(3) st(3),
      THEN conjunct2, THEN conjunct2, THEN mp, OF oks(4)]
  have ps: "demo_process demo_host ?s =
      Inr \<lparr>p_ret = 60,
           p_answer = empty_answer\<lparr>frame :=
             take 58 (reply_header (frame empty_answer) (in_buffer ?s) (cfg_mymac demo_cfg))
               @ htole16 2
               @ drop 60 (reply_header (frame empty_answer) (in_buffer ?s) (cfg_mymac demo_cfg))\<rparr>,
           p_fsdb = demo_fsdb, p_world = demo_host\<rparr>"
    unfolding demo_process_def n by (rule Ts)
  show ?thesis
    using reply_bytes_Inr[OF pr] reply_bytes_Inr[OF pw] reply_bytes_Inr[OF ps]
    by (simp add: demo_header htole16_def)
qed

text \<open>
  C2 as stated fails: a READFIL for the empty slot 9 is answered with AX = 5, not 2, and
  a FINDNEXT for the empty slot 9 passes the NULL name of the slot to \<^verbatim>\<open>isroot\<close>, which
  dereferences it.
\<close>

theorem stale_id_counterexample:
  "name (demo_fsdb (unat (9 :: 16 word))) = None
   \<and> reply_bytes (demo_process demo_host (request 2 7 2 0x08 [0, 0, 0, 0, 9, 0, 16, 0])) =
       Inr (60, [2, 0, 0, 0, 0, 9, 2, 0, 0, 0, 0, 1, 0xED, 0xF5] @ replicate 38 0
                  @ [0, 0, 0, 0, 2, 7] @ [5, 0])
   \<and> reply_bytes (demo_process demo_host
         (request 2 7 2 0x1C ([9, 0, 0, 0, 0x3F] @ str ''???????????''))) = Inl NullDeref"
  by code_simp

section \<open>READFIL and the size of the answer frame\<close>

text \<open>
  C9 fails on the code.  The file behind handle 2 has 2000 bytes; a READFIL of 2000 bytes
  (length field D0 07) at offset 0 makes \<^verbatim>\<open>fread\<close> store 2000 bytes at byte 60 of the
  1520-byte frame, for a reply length of 2060.
\<close>

theorem readfil_exceeds_frame:
  "reply_bytes (demo_process demo_host (request 2 7 2 0x08 [0, 0, 0, 0, 2, 0, 0xD0, 0x07]))
     = Inl (BufferOverflow 2060)"
  by code_simp

section \<open>DELETE with a wildcard\<close>

text \<open>
  C4 fails on the code.  The directory \<^verbatim>\<open>/srv/TMP\<close> holds the file \<^verbatim>\<open>A.TMP\<close>, whose FCB name
  matches the mask of the pattern \<^verbatim>\<open>\TMP\????????.TMP\<close>.  \<^verbatim>\<open>shorttolong\<close> looks for an
  entry whose FCB name equals the mask, finds none and fails, so the reply is AX = 2
  and nothing is deleted; \<^verbatim>\<open>delfiles\<close> is not reached.  The same happens when no entry
  matches (\<^verbatim>\<open>\TMP\????????.XYZ\<close>), where AX = 0 is claimed.
\<close>

theorem delete_wildcard_not_found:
  "matchfile2mask (str ''????????TMP'') (str ''A       TMP'') = 0
   \<and> reply_bytes (demo_process demo_host
         (request 2 7 2 0x13 ([0x5C] @ str ''TMP'' @ [0x5C] @ str ''????????.TMP''))) =
       Inr (60, [2, 0, 0, 0, 0, 9, 2, 0, 0, 0, 0, 1, 0xED, 0xF5] @ replicate 38 0
                  @ [0, 0, 0, 0, 2, 7] @ [2, 0])
   \<and> world_after (demo_process demo_host
         (request 2 7 2 0x13 ([0x5C] @ str ''TMP'' @ [0x5C] @ str ''????????.TMP''))) =
       Inr demo_host
   \<and> reply_bytes (demo_process demo_host
         (request 2 7 2 0x13 ([0x5C] @ str ''TMP'' @ [0x5C] @ str ''????????.XYZ''))) =
       Inr (60, [2, 0, 0, 0, 0, 9, 2, 0, 0, 0, 0, 1, 0xED, 0xF5] @ replicate 38 0
                  @ [0, 0, 0, 0, 2, 7] @ [2, 0])"
  by code_simp

section \<open>The main loop\<close>

lemma recv_60:
  assumes "length dgram = 60" "length buff = 2048"
  shows "recv buff dgram = (dgram @ drop 60 buff, 60)"
  using assms by (simp add: recv_def)

lemma serve_dispatched:
  assumes "recv (rx_buffer S) dgram = (buff, n0)"
    and "validate (cfg_mymac cfg) buff n0 = Some (n, ck)"
    and "k = findcacheentry (answcache S) (drop 6 buff)"
    and "process E (cfg_mymac cfg) (cfg_root cfg) (cfg_drivesfat cfg) (answcache S k)
           (fsdb S) (world S) buff n = Inr r"
    and "finish now ck (p_ret r) (p_answer r) = Inr (entry, sent)"
  shows "serve E cfg now S dgram =
           Inr (S\<lparr>rx_buffer := buff, answcache := (answcache S)(k := entry),
                  fsdb := p_fsdb r, world := p_world r\<rparr>, sent)"
  using assms by (simp add: serve_def)

lemma finish_ignored:
  "n < 0 \<Longrightarrow> finish now ck n e = Inr (e\<lparr>len := 0\<rparr>, None)"
  by (simp add: finish_def)

lemma dispatch_installchk:
  "dispatch E w db root fatflag 0 p 0 = Inr (Ignore (- 1) db w)"
  by (simp add: dispatch_def)

text \<open>
  C1 (as amended).  A 60-byte request frame that passes the checks of the main loop
  (among them protocol version 2), names the mapped drive 2 and has the query byte 0x00
  (INSTALLCHK), and for which the cache entry of the client does not hold a reply with
  the same sequence byte, is ignored: \<^verbatim>\<open>process\<close> returns -1 from its last branch, no
  frame is sent, and the stored length of the cache entry becomes 0.
\<close>

theorem installchk_ignored:
  assumes "length dgram = 60" "length (rx_buffer S) = 2048" "length (cfg_mymac cfg) = 6"
    and "length (frame (answcache S (findcacheentry (answcache S)
                                      (drop 6 (dgram @ drop 60 (rx_buffer S)))))) = 1520"
    and "validate (cfg_mymac cfg) (dgram @ drop 60 (rx_buffer S)) 60 = Some (60, ck)"
    and "dgram ! 59 = 0x00" "unat (dgram ! 58 AND 31) = 2" "cfg_root cfg 2 = Some root"
    and "\<not> cache_hit (answcache S (findcacheentry (answcache S)
                                      (drop 6 (dgram @ drop 60 (rx_buffer S)))))
                       (dgram @ drop 60 (rx_buffer S))"
  shows "serve E cfg now S dgram =
           Inr (S\<lparr>rx_buffer := dgram @ drop 60 (rx_buffer S),
                  answcache := (answcache S)
                    (findcacheentry (answcache S) (drop 6 (dgram @ drop 60 (rx_buffer S))) :=
                       (answcache S (findcacheentry (answcache S)
                                       (drop 6 (dgram @ drop 60 (rx_buffer S)))))
                       \<lparr>frame := set_ax (reply_header
                                   (frame (answcache S (findcacheentry (answcache S)
                                       (drop 6 (dgram @ drop 60 (rx_buffer S))))))
                                   (dgram @ drop 60 (rx_buffer S)) (cfg_mymac cfg)) 0,
                        len := 0\<rparr>)\<rparr>,
                None)"
proof -
  let ?buff = "dgram @ drop 60 (rx_buffer S)"
  let ?k = "findcacheentry (answcache S) (drop 6 ?buff)"
  have b58: "?buff ! 58 = dgram ! 58" and b59: "?buff ! 59 = dgram ! 59"
    using assms(1) by (simp_all add: nth_append)
  have bl: "length ?buff = 2048" using assms(1,2) by simp
  have le: "60 \<le> (60::int)" and two: "(2::nat) \<le> 2" "(2::nat) \<le> 25" by simp_all
  have drv: "unat (?buff ! 58 AND 31) = 2" using assms(7) b58 by simp
  have d: "dispatch E (world S) (fsdb S) root (cfg_drivesfat cfg 2) (?buff ! 59) (drop 60 ?buff)
             (60 - 60) = Inr (Ignore (- 1) (fsdb S) (world S))"
    using assms(6) b59 by (simp add: dispatch_installchk)
  have p: "process E (cfg_mymac cfg) (cfg_root cfg) (cfg_drivesfat cfg) (answcache S ?k)
             (fsdb S) (world S) ?buff 60 =
           Inr \<lparr>p_ret = - 1,
                p_answer = (answcache S ?k)\<lparr>frame :=
                  set_ax (reply_header (frame (answcache S ?k)) ?buff (cfg_mymac cfg)) 0\<rparr>,
                p_fsdb = fsdb S, p_world = world S\<rparr>"
    unfolding process_dispatched[where rootarray = "cfg_root cfg" and drv = 2 and root = root,
        OF le bl assms(4,3,9) drv two assms(8)] d
    by (simp only: sum.case outcome.case)
  have f: "finish now ck (p_ret \<lparr>p_ret = - 1,
                p_answer = (answcache S ?k)\<lparr>frame :=
                  set_ax (reply_header (frame (answcache S ?k)) ?buff (cfg_mymac cfg)) 0\<rparr>,
                p_fsdb = fsdb S, p_world = world S\<rparr>)
             (p_answer \<lparr>p_ret = - 1,
                p_answer = (answcache S ?k)\<lparr>frame :=
                  set_ax (reply_header (frame (answcache S ?k)) ?buff (cfg_mymac cfg)) 0\<rparr>,
                p_fsdb = fsdb S, p_world = world S\<rparr>) =
           Inr ((answcache S ?k)\<lparr>frame :=
                  set_ax (reply_header (frame (answcache S ?k)) ?buff (cfg_mymac cfg)) 0,
                  len := 0\<rparr>, None)"
    by (simp add: finish_ignored)
  show ?thesis
    unfolding serve_dispatched[OF recv_60[OF assms(1,2)] assms(5) refl p f]
    by simp
qed


theorem installchk_ignored_witness:
  "sent_frame (serve demo_env demo_cfg 100 demo_server (request 2 9 2 0x00 [])) = Inr None
   \<and> len (answcache (server_after demo_server
                        (serve demo_env demo_cfg 100 demo_server (request 2 9 2 0x00 []))) 0) = 0"
proof -
  let ?d = "request 2 9 2 0x00 []"
  let ?buff = "?d @ drop 60 (rx_buffer demo_server)"
  have h1: "length ?d = 60" by (simp add: request_def)
  have h2: "length (rx_buffer demo_server) = 2048" by (simp add: demo_server_def)
  have h3: "length (cfg_mymac demo_cfg) = 6" by (simp add: demo_cfg_def)
  have k: "findcacheentry (answcache demo_server) (drop 6 ?buff) = 0" by code_simp
  have h4: "length (frame (answcache demo_server
                      (findcacheentry (answcache demo_server) (drop 6 ?buff)))) = 1520"
    unfolding k by (simp add: demo_server_def empty_answer_def)
  have h5: "validate (cfg_mymac demo_cfg) ?buff 60 = Some (60, 0)" by code_simp
  have h6: "?d ! 59 = 0x00" and h7: "unat (?d ! 58 AND 31) = 2"
    by (simp_all add: request_def nth_append)
  have h8: "cfg_root demo_cfg 2 = Some (str ''/srv'')" by (simp add: demo_cfg_def)
  have h9: "\<not> cache_hit (answcache demo_server
                      (findcacheentry (answcache demo_server) (drop 6 ?buff))) ?buff"
    unfolding k by (simp add: cache_hit_def demo_server_def empty_answer_def)
  note T = installchk_ignored[where E = demo_env and now = 100, OF h1 h2 h3 h4 h5 h6 h7 h8 h9]
  show ?thesis
    unfolding T k by (simp add: sent_frame_def server_after_def)
qed

text \<open>
  C1 as stated fails: the chain of queries in \<^verbatim>\<open>process\<close> has no branch for the query
  0x00, so the frame below, which passes every check of the main loop, gets no reply.
\<close>

theorem installchk_no_reply_counterexample:
  "validate (cfg_mymac demo_cfg) (in_buffer (request 2 7 2 0x00 [])) 60 = Some (60, 0)
   \<and> sent_frame (serve demo_env demo_cfg 100 demo_server (request 2 7 2 0x00 [])) = Inr None"
  by code_simp

section \<open>The answer cache\<close>

lemma recv_length: "length buff = 2048 \<Longrightarrow> length (fst (recv buff dgram)) = 2048"
  by (simp add: recv_def Let_def)

lemma recv_head:
  "length buff = 2048 \<Longrightarrow> 60 \<le> snd (recv buff dgram)
     \<Longrightarrow> take 60 (fst (recv buff dgram)) = take 60 dgram"
  by (simp add: recv_def Let_def min_def split: if_splits)

lemma head_bytes:
  assumes "take 60 x = take 60 y"
  shows "take 6 (drop 6 x) = take 6 (drop 6 y)" "x ! 56 = y ! 56" "x ! 57 = y ! 57"
proof -
  have "take 6 (drop 6 (take 60 x)) = take 6 (drop 6 (take 60 y))"
    using assms by simp
  thus "take 6 (drop 6 x) = take 6 (drop 6 y)" by (simp add: drop_take)
  have "take 60 x ! 56 = take 60 y ! 56" "take 60 x ! 57 = take 60 y ! 57"
    using assms by simp_all
  thus "x ! 56 = y ! 56" "x ! 57 = y ! 57" by simp_all
qed

lemma validate_Some:
  assumes "validate mymac buff n0 = Some (n, ck)"
  shows "60 \<le> n0" "60 \<le> n" "ck = drop_bit 7 (buff ! 56)"
  using assms
  by (auto simp: validate_def Let_def word_less_def word_le_def not_less not_le split: if_splits)

lemma reply_header_bytes:
  assumes "length answ = 1520" "60 \<le> length reqbuff" "length mymac = 6"
  shows "take 6 (reply_header answ reqbuff mymac) = take 6 (drop 6 reqbuff)"
    and "reply_header answ reqbuff mymac ! 56 = reqbuff ! 56"
    and "reply_header answ reqbuff mymac ! 57 = reqbuff ! 57"
  using assms by (simp_all add: reply_header_def Let_def nth_append drop_take)

lemma fill_frame_length: "length (fill_frame ck n F) = length F"
  by (simp add: fill_frame_def Let_def)

lemma fill_frame_bytes:
  "take 6 (fill_frame ck n F) = take 6 F" "fill_frame ck n F ! 57 = F ! 57"
  by (simp_all add: fill_frame_def Let_def)

lemma fill_frame_flagged:
  assumes "ck \<noteq> 0" "56 < length X" "X ! 56 OR 128 = X ! 56"
  shows "fill_frame ck n X =
           X[52 := of_int n, 53 := of_int (n div 256),
             54 := ucast (bsdsum (drop 56 X) (of_int (n - 56))),
             55 := ucast (drop_bit 8 (bsdsum (drop 56 X) (of_int (n - 56))))]"
  using assms by (simp add: fill_frame_def Let_def list_eq_iff_nth_eq nth_list_update)

lemma fill_frame_idem:
  assumes "56 < length F" "ck \<noteq> 0 \<longrightarrow> F ! 56 OR 128 = F ! 56"
  shows "fill_frame ck n (fill_frame ck n F) = fill_frame ck n F"
proof (cases "ck = 0")
  case True
  then show ?thesis
    using assms(1)
    by (simp add: fill_frame_def Let_def list_eq_iff_nth_eq nth_list_update and.assoc)
next
  case False
  define G where "G = fill_frame ck n F"
  define c where "c = bsdsum (drop 56 F) (of_int (n - 56))"
  have or: "F ! 56 OR 128 = F ! 56" using assms(2) False by simp
  have G: "G = F[52 := of_int n, 53 := of_int (n div 256), 54 := ucast c,
                 55 := ucast (drop_bit 8 c)]"
    unfolding G_def c_def by (rule fill_frame_flagged[OF False assms(1) or])
  have l: "56 < length G" using assms(1) by (simp add: G)
  have d: "drop 56 G = drop 56 F" by (simp add: G)
  have "G ! 56 = F ! 56" by (simp add: G)
  hence or': "G ! 56 OR 128 = G ! 56" using or by simp
  have "fill_frame ck n G =
          G[52 := of_int n, 53 := of_int (n div 256), 54 := ucast c,
            55 := ucast (drop_bit 8 c)]"
    unfolding c_def d[symmetric] by (rule fill_frame_flagged[OF False l or'])
  also have "\<dots> = G"
    using assms(1) by (simp add: G list_eq_iff_nth_eq nth_list_update)
  finally show ?thesis unfolding G_def .
qed

lemma flag_bit: "drop_bit 7 (x :: 8 word) \<noteq> 0 \<Longrightarrow> x OR 128 = x"
proof -
  assume a: "drop_bit 7 x \<noteq> 0"
  have "bit x 7"
  proof (rule ccontr)
    assume n: "\<not> bit x 7"
    have "\<not> bit (drop_bit 7 x) m" for m
    proof (cases m)
      case 0
      then show ?thesis using n by (simp add: bit_drop_bit_eq)
    next
      case (Suc j)
      show ?thesis
      proof
        assume "bit (drop_bit 7 x) m"
        hence "bit x (7 + m)" by (simp add: bit_drop_bit_eq)
        from bit_imp_le_length[OF this] Suc show False by simp
      qed
    qed
    hence "drop_bit 7 x = 0" by (intro bit_eqI) simp
    with a show False by simp
  qed
  have "x OR 128 = set_bit 7 x" by (simp add: set_bit_eq_or)
  also have "\<dots> = x"
    using \<open>bit x 7\<close> by (intro bit_eqI) (auto simp: bit_set_bit_iff)
  finally show ?thesis .
qed


lemma findcacheentry_loop_bound:
  "oldest < 16 \<Longrightarrow> findcacheentry_loop c m i oldest < 16"
proof (induction c m i oldest rule: findcacheentry_loop.induct)
  case (1 c m i oldest)
  show ?case
    using 1 by (subst findcacheentry_loop.simps) auto
qed

lemma findcacheentry_bound: "findcacheentry c m < 16"
  by (simp add: findcacheentry_def findcacheentry_loop_bound)

lemma findcacheentry_loop_first:
  "i \<le> k \<Longrightarrow> k < 16 \<Longrightarrow> take 6 (frame (c k)) = take 6 m
     \<Longrightarrow> (\<And>j. i \<le> j \<Longrightarrow> j < k \<Longrightarrow> take 6 (frame (c j)) \<noteq> take 6 m)
     \<Longrightarrow> findcacheentry_loop c m i oldest = k"
proof (induction c m i oldest rule: findcacheentry_loop.induct)
  case (1 c m i oldest)
  show ?case
  proof (cases "i = k")
    case True
    then show ?thesis using 1(3,4) by (subst findcacheentry_loop.simps) simp
  next
    case False
    hence lt: "i < k" using 1(2) by simp
    hence nm: "take 6 (frame (c i)) \<noteq> take 6 m" using 1(5) by simp
    have "findcacheentry_loop c m (i + 1)
            (if timestamp (c i) < timestamp (c oldest) then i else oldest) = k"
    proof (rule 1(1))
      show "i < 16" using lt 1(3) by simp
      show "take 6 (frame (c i)) \<noteq> take 6 m" by (rule nm)
      show "i + 1 \<le> k" using lt by simp
      show "k < 16" by (rule 1(3))
      show "take 6 (frame (c k)) = take 6 m" by (rule 1(4))
      show "take 6 (frame (c j)) \<noteq> take 6 m" if "i + 1 \<le> j" "j < k" for j
        using 1(5)[of j] that by simp
    qed
    then show ?thesis
      using lt 1(3) nm by (subst findcacheentry_loop.simps) simp
  qed
qed

lemma findcacheentry_loop_none_before:
  "findcacheentry_loop c m i oldest = k \<Longrightarrow> i \<le> j \<Longrightarrow> j < k
     \<Longrightarrow> oldest \<le> i
     \<Longrightarrow> take 6 (frame (c j)) \<noteq> take 6 m"
proof (induction c m i oldest rule: findcacheentry_loop.induct)
  case (1 c m i oldest)
  show ?case
  proof (cases "i < 16")
    case False
    then show ?thesis using 1(2-5) by (subst (asm) findcacheentry_loop.simps) simp
  next
    case True
    show ?thesis
    proof (cases "take 6 (frame (c i)) = take 6 m")
      case m: True
      then show ?thesis using True 1(2-5) by (subst (asm) findcacheentry_loop.simps) simp
    next
      case nm: False
      have r: "findcacheentry_loop c m (i + 1)
                 (if timestamp (c i) < timestamp (c oldest) then i else oldest) = k"
        using True nm 1(2) by (subst (asm) findcacheentry_loop.simps) simp
      show ?thesis
      proof (cases "j = i")
        case True
        then show ?thesis using nm by simp
      next
        case False
        then show ?thesis
          using 1(1)[OF True nm r] 1(3-5) by auto
      qed
    qed
  qed
qed

text \<open>Once a reply for the client is stored in the entry the lookup chose, the lookup
  finds that entry again.\<close>

lemma findcacheentry_again:
  assumes "k = findcacheentry c m" "take 6 (frame e) = take 6 m'" "take 6 m' = take 6 m"
  shows "findcacheentry (c(k := e)) m' = k"
proof -
  have k: "k < 16" using assms(1) findcacheentry_bound by simp
  have nb: "take 6 (frame (c j)) \<noteq> take 6 m" if "j < k" for j
    using findcacheentry_loop_none_before[of c m 0 0 k j] assms(1) that
    by (simp add: findcacheentry_def)
  show ?thesis
    unfolding findcacheentry_def
    by (rule findcacheentry_loop_first) (use k assms(2,3) nb in auto)
qed

lemma finish_sent:
  assumes "finish now ck n e = Inr (e', Some out)"
  shows "0 < n" "n \<le> 1520" "ck = 0 \<or> 56 \<le> n"
    "e' = e\<lparr>len := of_int n, timestamp := now, frame := fill_frame ck n (frame e)\<rparr>"
    "out = take (nat n) (fill_frame ck n (frame e))"
  using assms by (auto simp: finish_def Let_def split: if_splits)

lemma process_answered:
  assumes "process E mymac rootarray drivesfat answer db w reqbuff reqbufflen = Inr r"
    and "\<not> cache_hit answer reqbuff" "0 < p_ret r"
    and "length (frame answer) = 1520" "60 \<le> length reqbuff" "length mymac = 6"
  shows "length (frame (p_answer r)) = 1520"
    and "take 58 (frame (p_answer r)) = take 58 (reply_header (frame answer) reqbuff mymac)"
proof -
  let ?H = "reply_header (frame answer) reqbuff mymac"
  have H: "length ?H = 1520" using assms(4-6) by (rule length_reply_header)
  have s: "length (set_ax ?H 0) = 1520" "take 58 (set_ax ?H 0) = take 58 ?H"
    using H by (simp_all add: set_ax_def htole16_def)
  have a: "length (take 60 (set_ax (set_ax ?H 0) ax) @ data @ drop (60 + length data) (set_ax ?H 0)) = 1520"
    "take 58 (take 60 (set_ax (set_ax ?H 0) ax) @ data @ drop (60 + length data) (set_ax ?H 0))
       = take 58 ?H"
    if "60 + length data \<le> 1520" for ax data
    using that H by (simp_all add: answer_frame htole16_def)
  consider (ign) "p_answer r = answer\<lparr>frame := set_ax ?H 0\<rparr>"
    | (ans) ax data where "60 + length data \<le> 1520"
        "p_answer r = answer\<lparr>frame := take 60 (set_ax (set_ax ?H 0) ax) @ data
                                  @ drop (60 + length data) (set_ax ?H 0)\<rparr>"
    using assms(1-3)
    by (auto simp: process_def Let_def not_less
          split: if_splits option.splits sum.splits outcome.splits)
  note cs = this
  from cs show "length (frame (p_answer r)) = 1520"
  proof cases
    case ign
    then show ?thesis using s by simp
  next
    case ans
    show ?thesis unfolding ans(2) using a(1)[OF ans(1)] by simp
  qed
  from cs show "take 58 (frame (p_answer r)) = take 58 ?H"
  proof cases
    case ign
    then show ?thesis using s by simp
  next
    case ans
    show ?thesis unfolding ans(2) using a(2)[OF ans(1)] by simp
  qed
qed

lemma stored_length:
  "0 < n \<Longrightarrow> n \<le> 1520 \<Longrightarrow> uint (word_of_int n :: 16 word) = n"
  by (simp add: uint_word_of_int take_bit_int_eq_self)

lemma finish_again:
  assumes "0 < n" "n \<le> 1520" "ck = 0 \<or> 56 \<le> n" "fill_frame ck n (frame e) = frame e"
    "len e = of_int n"
  shows "finish now ck n e = Inr (e\<lparr>timestamp := now\<rparr>, Some (take (nat n) (frame e)))"
  using assms by (auto simp: finish_def Let_def)

lemma process_cached:
  assumes "60 \<le> n" "cache_hit e buff"
  shows "process E mymac rootarray drivesfat e db w buff n =
           Inr \<lparr>p_ret = uint (len e), p_answer = e, p_fsdb = db, p_world = w\<rparr>"
  using assms by (simp add: process_def)

lemma serve_sent:
  assumes "serve E cfg now S dgram = Inr (S', Some out)"
  obtains buff n0 n ck r e
  where "recv (rx_buffer S) dgram = (buff, n0)"
    and "validate (cfg_mymac cfg) buff n0 = Some (n, ck)"
    and "process E (cfg_mymac cfg) (cfg_root cfg) (cfg_drivesfat cfg)
           (answcache S (findcacheentry (answcache S) (drop 6 buff))) (fsdb S) (world S)
           buff n = Inr r"
    and "finish now ck (p_ret r) (p_answer r) = Inr (e, Some out)"
    and "S' = S\<lparr>rx_buffer := buff,
                  answcache := (answcache S)(findcacheentry (answcache S) (drop 6 buff) := e),
                  fsdb := p_fsdb r, world := p_world r\<rparr>"
proof -
  obtain buff n0 where r: "recv (rx_buffer S) dgram = (buff, n0)" by force
  show thesis
  proof (cases "validate (cfg_mymac cfg) buff n0")
    case None
    then show ?thesis using assms r by (simp add: serve_def)
  next
    case (Some v)
    obtain n ck where v: "v = (n, ck)" by force
    show ?thesis
    proof (cases "process E (cfg_mymac cfg) (cfg_root cfg) (cfg_drivesfat cfg)
                    (answcache S (findcacheentry (answcache S) (drop 6 buff))) (fsdb S)
                    (world S) buff n")
      case (Inl f)
      then show ?thesis using assms r Some v by (simp add: serve_def Let_def)
    next
      case (Inr p)
      show ?thesis
      proof (cases "finish now ck (p_ret p) (p_answer p)")
        case (Inl f)
        then show ?thesis using assms r Some v Inr by (simp add: serve_def Let_def)
      next
        case fin: (Inr es)
        obtain e sent where es: "es = (e, sent)" by force
        have "sent = Some out"
          and "S' = S\<lparr>rx_buffer := buff,
                 answcache := (answcache S)(findcacheentry (answcache S) (drop 6 buff) := e),
                 fsdb := p_fsdb p, world := p_world p\<rparr>"
          using assms r Some v Inr fin es by (simp_all add: serve_def Let_def)
        then show ?thesis
          using that[OF r] Some v Inr fin es by simp
      qed
    qed
  qed
qed

text \<open>
  C3 (as amended).  Two successive frames that pass the checks of the main loop, from the
  same client MAC address, with the same sequence byte (byte 57) and the same check sum
  flag (bit 7 of byte 56): if the first is answered and, in case it is itself answered
  from the cache, the stored frame carries its check sum flag, then the second gets the
  very same bytes as reply.  That reply comes from the cache entry: the handle table and
  the host are left as they are, whatever the host functions \<open>E'\<close> would do.
\<close>

theorem retransmit_same_reply:
  assumes wf: "length (rx_buffer S) = 2048" "length (cfg_mymac cfg) = 6"
      "\<forall>i<16. length (frame (answcache S i)) = 1520"
    and first: "serve E cfg t1 S d1 = Inr (S1, Some out1)"
      "cached S d1 \<longrightarrow> stored_flag S d1 = drop_bit 7 (d1 ! 56)"
    and second: "accepted cfg S1 d2 \<noteq> None"
    and same: "take 6 (drop 6 d2) = take 6 (drop 6 d1)" "d2 ! 57 = d1 ! 57"
      "drop_bit 7 (d2 ! 56) = drop_bit 7 (d1 ! 56)"
  shows "\<exists>S2. serve E' cfg t2 S1 d2 = Inr (S2, Some out1)
              \<and> fsdb S2 = fsdb S1 \<and> world S2 = world S1"
proof -
  from first(1) obtain b1 n1 l1 ck1 r e
    where r1: "recv (rx_buffer S) d1 = (b1, n1)"
      and v1: "validate (cfg_mymac cfg) b1 n1 = Some (l1, ck1)"
      and p1': "process E (cfg_mymac cfg) (cfg_root cfg) (cfg_drivesfat cfg)
                 (answcache S (findcacheentry (answcache S) (drop 6 b1)))
                 (fsdb S) (world S) b1 l1 = Inr r"
      and f1: "finish t1 ck1 (p_ret r) (p_answer r) = Inr (e, Some out1)"
      and S1': "S1 = S\<lparr>rx_buffer := b1,
                      answcache := (answcache S)(findcacheentry (answcache S) (drop 6 b1) := e),
                      fsdb := p_fsdb r, world := p_world r\<rparr>"
    by (rule serve_sent)
  define k where "k = findcacheentry (answcache S) (drop 6 b1)"
  have p1: "process E (cfg_mymac cfg) (cfg_root cfg) (cfg_drivesfat cfg) (answcache S k)
                 (fsdb S) (world S) b1 l1 = Inr r"
    unfolding k_def by (rule p1')
  have S1: "S1 = S\<lparr>rx_buffer := b1, answcache := (answcache S)(k := e),
                      fsdb := p_fsdb r, world := p_world r\<rparr>"
    unfolding k_def by (rule S1')
  have b1: "length b1 = 2048" using recv_length[OF wf(1), of d1] r1 by simp
  have "k < 16" unfolding k_def by (rule findcacheentry_bound)
  hence fk: "length (frame (answcache S k)) = 1520" using wf(3) by simp
  note V1 = validate_Some[OF v1]
  note F1 = finish_sent[OF f1]
  define n where "n = p_ret r"
  define F0 where "F0 = frame (p_answer r)"
  have b1': "60 \<le> length b1" using b1 by simp
  have h1: "take 60 b1 = take 60 d1" using recv_head[OF wf(1), of d1] r1 V1(1) by simp
  note B1 = head_bytes[OF h1]
  have F0: "length F0 = 1520 \<and> take 6 F0 = take 6 (drop 6 b1) \<and> F0 ! 57 = b1 ! 57
              \<and> drop_bit 7 (F0 ! 56) = ck1"
  proof (cases "cache_hit (answcache S k) b1")
    case True
    have "r = \<lparr>p_ret = uint (len (answcache S k)), p_answer = answcache S k,
                p_fsdb = fsdb S, p_world = world S\<rparr>"
      using process_cached[where E = E and mymac = "cfg_mymac cfg" and rootarray = "cfg_root cfg"
              and drivesfat = "cfg_drivesfat cfg" and db = "fsdb S" and w = "world S",
              OF V1(2) True] p1
      by simp
    hence F: "F0 = frame (answcache S k)" by (simp add: F0_def)
    have "cached S d1" using True r1 by (simp add: cached_def k_def)
    hence "stored_flag S d1 = drop_bit 7 (d1 ! 56)" using first(2) by simp
    hence "drop_bit 7 (F0 ! 56) = ck1"
      using r1 V1(3) B1(2) by (simp add: stored_flag_def k_def F)
    then show ?thesis using True fk by (simp add: F cache_hit_def)
  next
    case miss: False
    note P1 = process_answered[OF p1 miss F1(1) fk b1' wf(2)]
    note H = reply_header_bytes[OF fk b1' wf(2)]
    have t58: "take 58 F0 = take 58 (reply_header (frame (answcache S k)) b1 (cfg_mymac cfg))"
      unfolding F0_def by (rule P1(2))
    have "take 6 (take 58 F0) = take 6 (drop 6 b1)" unfolding t58 using H(1) by simp
    hence F0mac: "take 6 F0 = take 6 (drop 6 b1)" by simp
    have "take 58 F0 ! 56 = b1 ! 56" "take 58 F0 ! 57 = b1 ! 57"
      unfolding t58 using H(2,3) by simp_all
    hence "F0 ! 56 = b1 ! 56" "F0 ! 57 = b1 ! 57" by simp_all
    then show ?thesis using P1(1) F0mac V1(3) by (simp add: F0_def)
  qed
  hence F0l: "length F0 = 1520" and F0mac: "take 6 F0 = take 6 (drop 6 b1)"
    and F057: "F0 ! 57 = b1 ! 57" and F056: "drop_bit 7 (F0 ! 56) = ck1"
    by simp_all
  define f1 where "f1 = fill_frame ck1 n F0"
  have e: "e = (p_answer r)\<lparr>len := of_int n, timestamp := t1, frame := f1\<rparr>"
    unfolding f1_def n_def F0_def by (rule F1(4))
  have out1: "out1 = take (nat n) f1" unfolding f1_def n_def F0_def by (rule F1(5))
  have n: "0 < n" "n \<le> 1520" "ck1 = 0 \<or> 56 \<le> n" using F1(1-3) by (simp_all add: n_def)
  have idem: "fill_frame ck1 n f1 = f1"
    unfolding f1_def
  proof (rule fill_frame_idem)
    show "56 < length F0" using F0l by simp
    show "ck1 \<noteq> 0 \<longrightarrow> F0 ! 56 OR 128 = F0 ! 56"
      using flag_bit[of "F0 ! 56"] F056 by simp
  qed
  have fe: "frame e = f1" and le: "len e = of_int n" by (simp_all add: e)
  have e57: "frame e ! 57 = b1 ! 57" unfolding fe f1_def using fill_frame_bytes(2) F057 by simp
  have emac: "take 6 (frame e) = take 6 (drop 6 b1)"
    unfolding fe f1_def using fill_frame_bytes(1) F0mac by simp
  have lpos: "0 < len e" unfolding le using stored_length[OF n(1,2)] n(1) by (simp add: word_less_def)
  have rx1: "rx_buffer S1 = b1" and c1: "answcache S1 = (answcache S)(k := e)"
    by (simp_all add: S1)
  obtain b2 n2 where r2: "recv (rx_buffer S1) d2 = (b2, n2)" by force
  from second r2 obtain l2 ck2 where v2: "validate (cfg_mymac cfg) b2 n2 = Some (l2, ck2)"
    by (auto simp: accepted_def)
  note V2 = validate_Some[OF v2]
  have h2: "take 60 b2 = take 60 d2"
    using recv_head[of "rx_buffer S1" d2] r2 V2(1) rx1 b1 by simp
  note B2 = head_bytes[OF h2]
  have mac: "take 6 (drop 6 b2) = take 6 (drop 6 b1)" using B1(1) B2(1) same(1) by simp
  have seq: "b2 ! 57 = b1 ! 57" using B1(3) B2(3) same(2) by simp
  have ck: "ck2 = ck1" using V1(3) V2(3) B1(2) B2(2) same(3) by simp
  have k2: "k = findcacheentry (answcache S1) (drop 6 b2)"
    unfolding c1
    by (rule findcacheentry_again[symmetric]) (use k_def emac mac in simp_all)
  have hit: "cache_hit (answcache S1 k) b2"
    using e57 emac lpos seq mac by (simp add: cache_hit_def c1)
  have ek: "answcache S1 k = e" by (simp add: c1)
  have p2: "process E' (cfg_mymac cfg) (cfg_root cfg) (cfg_drivesfat cfg) (answcache S1 k)
              (fsdb S1) (world S1) b2 l2 =
            Inr \<lparr>p_ret = uint (len e), p_answer = e, p_fsdb = fsdb S1, p_world = world S1\<rparr>"
    using process_cached[OF V2(2) hit] by (simp add: ek)
  have ul: "uint (len e) = n" unfolding le by (rule stored_length[OF n(1,2)])
  have fin: "finish t2 ck2 (p_ret \<lparr>p_ret = uint (len e), p_answer = e, p_fsdb = fsdb S1,
                                  p_world = world S1\<rparr>)
               (p_answer \<lparr>p_ret = uint (len e), p_answer = e, p_fsdb = fsdb S1,
                          p_world = world S1\<rparr>) =
             Inr (e\<lparr>timestamp := t2\<rparr>, Some out1)"
    using finish_again[of n ck1 e t2] n idem fe le ul ck out1 by simp
  have "serve E' cfg t2 S1 d2 =
          Inr (S1\<lparr>rx_buffer := b2, answcache := (answcache S1)(k := e\<lparr>timestamp := t2\<rparr>),
                   fsdb := fsdb S1, world := world S1\<rparr>, Some out1)"
    using serve_dispatched[OF r2 v2 k2 p2 fin] by simp
  thus ?thesis by simp
qed

lemma sent_frame_Some:
  "sent_frame x = Inr (Some out) \<Longrightarrow> x = Inr (server_after S0 x, Some out)"
  by (auto simp: sent_frame_def server_after_def split: sum.splits prod.splits)

theorem retransmit_same_reply_witness:
  "sent_frame (serve demo_env demo_cfg 100 demo_server
                 (request 2 7 2 0x08 [0, 0, 0, 0, 9, 0, 16, 0])) =
     Inr (Some ([2, 0, 0, 0, 0, 9, 2, 0, 0, 0, 0, 1, 0xED, 0xF5] @ replicate 38 0
                  @ [60, 0, 0, 0, 2, 7, 5, 0]))
   \<and> sent_frame (serve demo_env demo_cfg 101
                   (server_after demo_server
                      (serve demo_env demo_cfg 100 demo_server
                         (request 2 7 2 0x08 [0, 0, 0, 0, 9, 0, 16, 0])))
                   (request 2 7 2 0x08 [0, 0, 0, 0, 9, 0, 16, 0])) =
     Inr (Some ([2, 0, 0, 0, 0, 9, 2, 0, 0, 0, 0, 1, 0xED, 0xF5] @ replicate 38 0
                  @ [60, 0, 0, 0, 2, 7, 5, 0]))"
proof -
  let ?d = "request 2 7 2 0x08 [0, 0, 0, 0, 9, 0, 16, 0]"
  let ?out = "[2, 0, 0, 0, 0, 9, 2, 0, 0, 0, 0, 1, 0xED, 0xF5] @ replicate 38 0
                @ [60, 0, 0, 0, 2, 7, 5, 0 :: byte]"
  let ?S1 = "server_after demo_server (serve demo_env demo_cfg 100 demo_server ?d)"
  have s: "sent_frame (serve demo_env demo_cfg 100 demo_server ?d) = Inr (Some ?out)"
    by code_simp
  have h1: "length (rx_buffer demo_server) = 2048" by (simp add: demo_server_def)
  have h2: "length (cfg_mymac demo_cfg) = 6" by (simp add: demo_cfg_def)
  have h3: "\<forall>i<16. length (frame (answcache demo_server i)) = 1520"
    by (simp add: demo_server_def empty_answer_def)
  have h4: "serve demo_env demo_cfg 100 demo_server ?d = Inr (?S1, Some ?out)"
    by (rule sent_frame_Some[OF s])
  have "\<not> cached demo_server ?d" by code_simp
  hence h5: "cached demo_server ?d \<longrightarrow> stored_flag demo_server ?d = drop_bit 7 (?d ! 56)"
    by simp
  have h6: "accepted demo_cfg ?S1 ?d \<noteq> None" by code_simp
  from retransmit_same_reply[where E' = demo_env and ?t2.0 = 101, OF h1 h2 h3 h4 h5 h6 refl refl refl]
  have "sent_frame (serve demo_env demo_cfg 101 ?S1 ?d) = Inr (Some ?out)"
    by (auto simp: sent_frame_def)
  with s show ?thesis by simp
qed

text \<open>
  C3 as stated fails.  The three frames below come from the same client and carry the
  same sequence byte 7; the second and the third are the same frame.  All three are
  answered from one dispatch, but byte 56 and the check sum bytes 54 and 55 are written
  anew for every reply from the check sum flag of the request at hand: the second reply
  differs from the first, and the third from the second.
\<close>

theorem retransmit_differs_counterexample:
  "main_loop demo_env demo_cfg demo_server
     [(100, request 2 7 2 0x08 [0, 0, 0, 0, 9, 0, 16, 0]),
      (101, request_ck 7 2 0x08 [0, 0, 0, 0, 9, 0, 16, 0]),
      (102, request_ck 7 2 0x08 [0, 0, 0, 0, 9, 0, 16, 0])] =
     [Inr (Some ([2, 0, 0, 0, 0, 9, 2, 0, 0, 0, 0, 1, 0xED, 0xF5] @ replicate 38 0
                   @ [60, 0, 0, 0, 2, 7, 5, 0])),
      Inr (Some ([2, 0, 0, 0, 0, 9, 2, 0, 0, 0, 0, 1, 0xED, 0xF5] @ replicate 38 0
                   @ [60, 0, 4, 128, 130, 7, 5, 0])),
      Inr (Some ([2, 0, 0, 0, 0, 9, 2, 0, 0, 0, 0, 1, 0xED, 0xF5] @ replicate 38 0
                   @ [60, 0, 20, 128, 130, 7, 5, 0]))]"
  by code_simp

end
